theory Spec2Isabelle
  imports Main "HOL-Library.AList"
begin

section \<open>Values exchanged with the homeserver\<close>

text \<open>
  The transport hands the client parsed JSON: \<^verbatim>\<open>None\<close>, booleans, integers, strings,
  lists and dictionaries. A dictionary is an association list in insertion order whose
  keys are distinct; a lookup takes the first entry of a key. Floating-point numbers are
  not represented.
\<close>

datatype json =
    JNull
  | JBool bool
  | JInt int
  | JStr string
  | JList "json list"
  | JObj "(string \<times> json) list"

text \<open>
  The exceptions the client code can meet. \<^verbatim>\<open>MatrixRequestError\<close> carries its code and
  content; \<^verbatim>\<open>MatrixUnexpectedResponse\<close> its message. Both classes are declared in the
  \<^verbatim>\<open>api\<close> module, as siblings below one base class, so that a handler of the one
  does not catch the other. \<open>OtherError\<close> stands for any other exception a callback or
  the transport may raise.
\<close>

datatype error =
    KeyError
  | TypeError
  | AttributeError
  | MatrixRequestError int string
  | MatrixUnexpectedResponse string
  | OtherError string

datatype 'a result = Return 'a | Raise error

subsection \<open>The Python operations the client applies to a value\<close>

text \<open>\<^verbatim>\<open>v[k]\<close> for a string \<open>k\<close>: a dictionary is looked up, anything else is a TypeError.\<close>

fun py_getitem :: "json \<Rightarrow> string \<Rightarrow> error + json" where
  "py_getitem (JObj kvs) k = (case map_of kvs k of None \<Rightarrow> Inl KeyError | Some v \<Rightarrow> Inr v)"
| "py_getitem JNull k = Inl TypeError"
| "py_getitem (JBool b) k = Inl TypeError"
| "py_getitem (JInt i) k = Inl TypeError"
| "py_getitem (JStr s) k = Inl TypeError"
| "py_getitem (JList xs) k = Inl TypeError"

text \<open>\<^verbatim>\<open>k in s\<close> on two strings is the substring test.\<close>

fun is_substring :: "string \<Rightarrow> string \<Rightarrow> bool" where
  "is_substring k [] = (k = [])"
| "is_substring k (c # s) = (take (length k) (c # s) = k \<or> is_substring k s)"

text \<open>
  \<^verbatim>\<open>k in v\<close> for a string \<open>k\<close>: key membership in a dictionary, element membership in
  a list, the substring test on a string, and a TypeError on a value that is not a
  container.
\<close>

fun py_contains :: "string \<Rightarrow> json \<Rightarrow> error + bool" where
  "py_contains k (JObj kvs) = Inr (k \<in> set (map fst kvs))"
| "py_contains k (JList xs) = Inr (JStr k \<in> set xs)"
| "py_contains k (JStr s) = Inr (is_substring k s)"
| "py_contains k JNull = Inl TypeError"
| "py_contains k (JBool b) = Inl TypeError"
| "py_contains k (JInt i) = Inl TypeError"

text \<open>
  \<^verbatim>\<open>for x in v\<close>: a list yields its elements, a dictionary its keys, a string its
  characters; anything else is a TypeError.
\<close>

fun py_iter :: "json \<Rightarrow> error + json list" where
  "py_iter (JList xs) = Inr xs"
| "py_iter (JObj kvs) = Inr (map (\<lambda>p. JStr (fst p)) kvs)"
| "py_iter (JStr s) = Inr (map (\<lambda>c. JStr [c]) s)"
| "py_iter JNull = Inl TypeError"
| "py_iter (JBool b) = Inl TypeError"
| "py_iter (JInt i) = Inl TypeError"

text \<open>
  Using a value as a dictionary key hashes it: lists and dictionaries are unhashable
  (TypeError). \<^verbatim>\<open>True\<close> and \<^verbatim>\<open>1\<close> (and \<^verbatim>\<open>False\<close> and \<^verbatim>\<open>0\<close>) are the same key, so a
  key is kept in a normal form.
\<close>

fun py_hash :: "json \<Rightarrow> error + json" where
  "py_hash (JList xs) = Inl TypeError"
| "py_hash (JObj kvs) = Inl TypeError"
| "py_hash (JBool b) = Inr (JInt (if b then 1 else 0))"
| "py_hash JNull = Inr JNull"
| "py_hash (JInt i) = Inr (JInt i)"
| "py_hash (JStr s) = Inr (JStr s)"

text \<open>
  \<^verbatim>\<open>a == b\<close>: booleans compare as the integers 0 and 1, lists element by element,
  dictionaries as mappings (the order of the entries does not matter).
\<close>

fun py_eq :: "json \<Rightarrow> json \<Rightarrow> bool" where
  "py_eq JNull b = (case b of JNull \<Rightarrow> True | _ \<Rightarrow> False)"
| "py_eq (JBool x) b =
     (case b of JBool y \<Rightarrow> x = y | JInt j \<Rightarrow> j = (if x then 1 else 0) | _ \<Rightarrow> False)"
| "py_eq (JInt i) b =
     (case b of JInt j \<Rightarrow> i = j | JBool y \<Rightarrow> i = (if y then 1 else 0) | _ \<Rightarrow> False)"
| "py_eq (JStr s) b = (case b of JStr t \<Rightarrow> s = t | _ \<Rightarrow> False)"
| "py_eq (JList xs) b = (case b of JList ys \<Rightarrow> list_all2 py_eq xs ys | _ \<Rightarrow> False)"
| "py_eq (JObj kvs) b =
     (case b of
        JObj kws \<Rightarrow>
          length kvs = length kws \<and>
          list_all (\<lambda>p. list_ex (\<lambda>q. fst p = fst q \<and> py_eq (snd p) (snd q)) kws) kvs
      | _ \<Rightarrow> False)"

section \<open>The transport and the callbacks\<close>

text \<open>
  The calls the client makes on \<^verbatim>\<open>self.api\<close>, with their arguments. The module that
  implements them is not part of the client; its replies are an input of the model.
\<close>

datatype api_call =
    InitialSync int
  | EventStream json int
  | CreateRoom "string option" bool "string list"
  | JoinRoom string
  | InviteUser json string
  | KickUser json string
  | BanUser json string string
  | LeaveRoom json
  | GetRoomState json
  | MediaUpload string string

text \<open>
  What an observer of a run sees, in order: a call on the transport, a callback invoked
  with a chunk, a chunk appended to the event log of the room registered under a key.
  The client state carries this sequence as instrumentation; no source statement reads
  it.
\<close>

datatype action =
    ApiCall api_call
  | Invoked nat json
  | Appended json json

text \<open>
  The surroundings of the client. \<open>transport\<close> is the reply of the homeserver to a call
  (a parsed response, or the exception the call raises); \<open>callback\<close> tells whether a
  registered callable, named by a number, returns (\<open>None\<close>) or raises when it is given
  a chunk. Both may depend on everything that happened before. A callback observes: it
  does not modify the client or the chunk. \<open>error_str\<close> is \<^verbatim>\<open>str(e)\<close> of a
  \<^verbatim>\<open>MatrixRequestError\<close> with the given code and content.
\<close>

record env =
  transport :: "action list \<Rightarrow> api_call \<Rightarrow> error + json"
  callback :: "action list \<Rightarrow> nat \<Rightarrow> json \<Rightarrow> error option"
  error_str :: "int \<Rightarrow> string \<Rightarrow> string"

section \<open>Rooms and the client\<close>

text \<open>
  A \<^verbatim>\<open>Room\<close> object. Its back-reference to the client is left out: the model has one
  client. \<^verbatim>\<open>name\<close> and \<^verbatim>\<open>topic\<close> start as \<^verbatim>\<open>None\<close>, \<^verbatim>\<open>aliases\<close> as the empty list.
\<close>

record room =
  room_id :: json
  room_listeners :: "nat list"
  events :: "json list"
  name :: json
  aliases :: json
  topic :: json

text \<open>
  The client. Room objects live in \<open>heap\<close>; the address of a room is its index, and
  rooms are never freed. \<open>rooms\<close> is the dictionary \<^verbatim>\<open>self.rooms\<close>, from hashed room
  identifiers to addresses, in insertion order. \<open>end_token\<close> is \<^verbatim>\<open>self.end\<close>, an
  attribute that does not exist until a sync or a poll assigns it.
\<close>

record client =
  listeners :: "nat list"
  rooms :: "(json \<times> nat) list"
  end_token :: "json option"
  heap :: "room list"
  trace :: "action list"

definition MatrixClient_init :: client where
  "MatrixClient_init =
     \<lparr>listeners = [], rooms = [], end_token = None, heap = [], trace = []\<rparr>"

definition Room_init :: "json \<Rightarrow> room" where
  "Room_init rid =
     \<lparr>room_id = rid, room_listeners = [], events = [], name = JNull,
      aliases = JList [], topic = JNull\<rparr>"

subsection \<open>Sequencing statements that may raise\<close>

type_synonym 'a prog = "client \<Rightarrow> 'a result \<times> client"

definition lift :: "error + 'a \<Rightarrow> 'a prog" where
  "lift x c = (case x of Inl e \<Rightarrow> (Raise e, c) | Inr v \<Rightarrow> (Return v, c))"

definition bind :: "'a prog \<Rightarrow> ('a \<Rightarrow> 'b prog) \<Rightarrow> 'b prog" where
  "bind m f c = (case m c of (Raise e, c') \<Rightarrow> (Raise e, c') | (Return v, c') \<Rightarrow> f v c')"

definition log_action :: "action \<Rightarrow> client \<Rightarrow> client" where
  "log_action a c = c\<lparr>trace := trace c @ [a]\<rparr>"

text \<open>A call on the transport: the call is recorded, the reply returned or raised.\<close>

definition api :: "env \<Rightarrow> api_call \<Rightarrow> json prog" where
  "api env call c = lift (transport env (trace c) call) (log_action (ApiCall call) c)"

text \<open>\<^verbatim>\<open>self.rooms[key]\<close> and \<^verbatim>\<open>key in self.rooms\<close>.\<close>

definition rooms_getitem :: "json \<Rightarrow> nat prog" where
  "rooms_getitem key c =
     (case py_hash key of
        Inl e \<Rightarrow> (Raise e, c)
      | Inr k \<Rightarrow> (case map_of (rooms c) k of None \<Rightarrow> (Raise KeyError, c) | Some a \<Rightarrow> (Return a, c)))"

definition rooms_contains :: "json \<Rightarrow> bool prog" where
  "rooms_contains key c =
     (case py_hash key of
        Inl e \<Rightarrow> (Raise e, c)
      | Inr k \<Rightarrow> (case map_of (rooms c) k of None \<Rightarrow> (Return False, c) | Some a \<Rightarrow> (Return True, c)))"

text \<open>An assignment to fields of the room object at an address.\<close>

definition update_room :: "nat \<Rightarrow> (room \<Rightarrow> room) \<Rightarrow> client \<Rightarrow> client" where
  "update_room a f c = c\<lparr>heap := (heap c)[a := f (heap c ! a)]\<rparr>"

section \<open>MatrixClient\<close>

text \<open>
  \<^verbatim>\<open>_mkroom\<close>: a new \<^verbatim>\<open>Room\<close> is constructed, stored under the identifier, and read back
  from the dictionary. The store hashes the identifier after the room was constructed.
\<close>

definition mkroom :: "json \<Rightarrow> nat prog" where
  "mkroom rid c =
     (let a = length (heap c);
          c1 = c\<lparr>heap := heap c @ [Room_init rid]\<rparr>
      in case py_hash rid of
           Inl e \<Rightarrow> (Raise e, c1)
         | Inr k \<Rightarrow> rooms_getitem rid (c1\<lparr>rooms := AList.update k a (rooms c1)\<rparr>))"

definition add_listener :: "nat \<Rightarrow> client \<Rightarrow> client" where
  "add_listener cb c = c\<lparr>listeners := listeners c @ [cb]\<rparr>"

definition create_room :: "env \<Rightarrow> string option \<Rightarrow> bool \<Rightarrow> string list \<Rightarrow> nat prog" where
  "create_room env alias is_public invitees =
     bind (api env (CreateRoom alias is_public invitees)) (\<lambda>response.
     bind (lift (py_getitem response ''room_id'')) mkroom)"

definition join_room :: "env \<Rightarrow> string \<Rightarrow> nat prog" where
  "join_room env room_id_or_alias =
     bind (api env (JoinRoom room_id_or_alias)) (\<lambda>response.
     bind (lift (py_contains ''room_id'' response)) (\<lambda>present.
     bind (if present then lift (py_getitem response ''room_id'')
           else lift (Inr (JStr room_id_or_alias))) mkroom))"

text \<open>\<^verbatim>\<open>_process_state_event\<close>, on the room object it is given.\<close>

definition content_field :: "json \<Rightarrow> string \<Rightarrow> error + json" where
  "content_field state_event k =
     (case py_getitem state_event ''content'' of
        Inl e \<Rightarrow> Inl e
      | Inr content \<Rightarrow> py_getitem content k)"

definition process_state_event :: "json \<Rightarrow> room \<Rightarrow> unit result \<times> room" where
  "process_state_event state_event current_room =
     (case py_contains ''type'' state_event of
        Inl e \<Rightarrow> (Raise e, current_room)
      | Inr False \<Rightarrow> (Return (), current_room)
      | Inr True \<Rightarrow>
          (case py_getitem state_event ''type'' of
             Inl e \<Rightarrow> (Raise e, current_room)
           | Inr etype \<Rightarrow>
               if py_eq etype (JStr ''m.room.name'') then
                 (case content_field state_event ''name'' of
                    Inl e \<Rightarrow> (Raise e, current_room)
                  | Inr v \<Rightarrow> (Return (), current_room\<lparr>name := v\<rparr>))
               else if py_eq etype (JStr ''m.room.topic'') then
                 (case content_field state_event ''topic'' of
                    Inl e \<Rightarrow> (Raise e, current_room)
                  | Inr v \<Rightarrow> (Return (), current_room\<lparr>topic := v\<rparr>))
               else if py_eq etype (JStr ''m.room.aliases'') then
                 (case content_field state_event ''aliases'' of
                    Inl e \<Rightarrow> (Raise e, current_room)
                  | Inr v \<Rightarrow> (Return (), current_room\<lparr>aliases := v\<rparr>))
               else (Return (), current_room)))"

text \<open>
  \<^verbatim>\<open>_sync\<close>. The two inner loops of a room descriptor work on \<^verbatim>\<open>current_room\<close>, the
  object read from the registry once; what they have assigned when a statement raises
  stays assigned.
\<close>

primrec append_chunks :: "json list \<Rightarrow> room \<Rightarrow> room" where
  "append_chunks [] current_room = current_room"
| "append_chunks (chunk # chunks) current_room =
     append_chunks chunks (current_room\<lparr>events := events current_room @ [chunk]\<rparr>)"

primrec process_state_events :: "json list \<Rightarrow> room \<Rightarrow> unit result \<times> room" where
  "process_state_events [] current_room = (Return (), current_room)"
| "process_state_events (state_event # rest) current_room =
     (case process_state_event state_event current_room of
        (Raise e, r) \<Rightarrow> (Raise e, r)
      | (Return u, r) \<Rightarrow> process_state_events rest r)"

definition room_chunks :: "json \<Rightarrow> error + json list" where
  "room_chunks room_desc =
     (case py_getitem room_desc ''messages'' of
        Inl e \<Rightarrow> Inl e
      | Inr messages \<Rightarrow>
          (case py_getitem messages ''chunk'' of Inl e \<Rightarrow> Inl e | Inr ch \<Rightarrow> py_iter ch))"

definition room_state :: "json \<Rightarrow> error + json list" where
  "room_state room_desc =
     (case py_getitem room_desc ''state'' of Inl e \<Rightarrow> Inl e | Inr st \<Rightarrow> py_iter st)"

definition sync_room :: "json \<Rightarrow> unit prog" where
  "sync_room room_desc =
     bind (lift (py_getitem room_desc ''room_id'')) (\<lambda>rid.
     bind (mkroom rid) (\<lambda>made.
     bind (lift (py_getitem room_desc ''room_id'')) (\<lambda>rid'.
     bind (rooms_getitem rid') (\<lambda>a.
     bind (lift (room_chunks room_desc)) (\<lambda>chunks.
     bind (\<lambda>c. (Return (), update_room a (append_chunks chunks) c)) (\<lambda>u.
     bind (lift (room_state room_desc)) (\<lambda>state_events c.
       (fst (process_state_events state_events (heap c ! a)),
        update_room a (\<lambda>r. snd (process_state_events state_events r)) c))))))))"

primrec sync_rooms :: "json list \<Rightarrow> unit prog" where
  "sync_rooms [] c = (Return (), c)"
| "sync_rooms (room_desc # rest) c =
     (case sync_room room_desc c of
        (Raise e, c') \<Rightarrow> (Raise e, c')
      | (Return u, c') \<Rightarrow> sync_rooms rest c')"

text \<open>The statements inside \<^verbatim>\<open>try\<close>.\<close>

definition sync_body :: "json \<Rightarrow> unit prog" where
  "sync_body response =
     bind (lift (py_getitem response ''end'')) (\<lambda>v.
     bind (\<lambda>c. (Return (), c\<lparr>end_token := Some v\<rparr>)) (\<lambda>u.
     bind (lift (py_getitem response ''rooms'')) (\<lambda>rs.
     bind (lift (py_iter rs)) sync_rooms)))"

text \<open>\<^verbatim>\<open>except KeyError: pass\<close>: a KeyError ends the call normally, any other exception passes.\<close>

definition sync :: "env \<Rightarrow> int \<Rightarrow> unit prog" where
  "sync env limit =
     bind (api env (InitialSync limit)) (\<lambda>response c.
       case sync_body response c of
         (Raise KeyError, c') \<Rightarrow> (Return (), c')
       | (Raise e, c') \<Rightarrow> (Raise e, c')
       | (Return u, c') \<Rightarrow> (Return (), c'))"

text \<open>\<^verbatim>\<open>listen_for_events\<close>. A loop over a list of callbacks calls each with the chunk.\<close>

primrec run_listeners :: "env \<Rightarrow> nat list \<Rightarrow> json \<Rightarrow> unit prog" where
  "run_listeners env [] chunk c = (Return (), c)"
| "run_listeners env (listener # rest) chunk c =
     (case callback env (trace c) listener chunk of
        Some e \<Rightarrow> (Raise e, log_action (Invoked listener chunk) c)
      | None \<Rightarrow> run_listeners env rest chunk (log_action (Invoked listener chunk) c))"

text \<open>
  The statements of the loop body for a chunk that carries \<^verbatim>\<open>room_id\<close>. Each of them
  evaluates \<^verbatim>\<open>chunk["room_id"]\<close> and looks the room up in the registry again.
\<close>

definition ensure_room :: "json \<Rightarrow> unit prog" where
  "ensure_room chunk =
     bind (lift (py_getitem chunk ''room_id'')) (\<lambda>rid.
     bind (rooms_contains rid) (\<lambda>known.
       if known then (\<lambda>c. (Return (), c))
       else bind (lift (py_getitem chunk ''room_id'')) (\<lambda>rid'.
            bind (mkroom rid') (\<lambda>made c. (Return (), c)))))"

definition append_event :: "json \<Rightarrow> unit prog" where
  "append_event chunk =
     bind (lift (py_getitem chunk ''room_id'')) (\<lambda>rid.
     bind (rooms_getitem rid) (\<lambda>a c.
       (Return (),
        log_action (Appended rid chunk)
          (update_room a (\<lambda>r. r\<lparr>events := events r @ [chunk]\<rparr>) c))))"

definition room_fan_out :: "env \<Rightarrow> json \<Rightarrow> unit prog" where
  "room_fan_out env chunk =
     bind (lift (py_getitem chunk ''room_id'')) (\<lambda>rid.
     bind (rooms_getitem rid) (\<lambda>a c.
       run_listeners env (room_listeners (heap c ! a)) chunk c))"

text \<open>The body of the loop over the chunks of a response.\<close>

definition dispatch_chunk :: "env \<Rightarrow> json \<Rightarrow> unit prog" where
  "dispatch_chunk env chunk =
     bind (\<lambda>c. run_listeners env (listeners c) chunk c) (\<lambda>u.
     bind (lift (py_contains ''room_id'' chunk)) (\<lambda>has_room.
       if has_room then
         bind (ensure_room chunk) (\<lambda>u.
         bind (append_event chunk) (\<lambda>u.
         room_fan_out env chunk))
       else (\<lambda>c. (Return (), c))))"

primrec dispatch_chunks :: "env \<Rightarrow> json list \<Rightarrow> unit prog" where
  "dispatch_chunks env [] c = (Return (), c)"
| "dispatch_chunks env (chunk # rest) c =
     (case dispatch_chunk env chunk c of
        (Raise e, c') \<Rightarrow> (Raise e, c')
      | (Return u, c') \<Rightarrow> dispatch_chunks env rest c')"

text \<open>Reading \<^verbatim>\<open>self.end\<close> before it was ever assigned is an AttributeError.\<close>

definition get_end :: "json prog" where
  "get_end c = (case end_token c of None \<Rightarrow> (Raise AttributeError, c) | Some v \<Rightarrow> (Return v, c))"

definition listen_for_events :: "env \<Rightarrow> int \<Rightarrow> unit prog" where
  "listen_for_events env timeout =
     bind get_end (\<lambda>cursor.
     bind (api env (EventStream cursor timeout)) (\<lambda>response.
     bind (lift (py_getitem response ''end'')) (\<lambda>v.
     bind (\<lambda>c. (Return (), c\<lparr>end_token := Some v\<rparr>)) (\<lambda>u.
     bind (lift (py_getitem response ''chunk'')) (\<lambda>ch.
     bind (lift (py_iter ch)) (dispatch_chunks env))))))"

text \<open>
  \<^verbatim>\<open>listen_forever\<close> calls \<^verbatim>\<open>listen_for_events\<close> again and again and ends only when a
  call raises. \<open>listen_times env timeout n\<close> is its first \<open>n\<close> calls.
\<close>

primrec listen_times :: "env \<Rightarrow> int \<Rightarrow> nat \<Rightarrow> unit prog" where
  "listen_times env timeout 0 c = (Return (), c)"
| "listen_times env timeout (Suc n) c =
     (case listen_times env timeout n c of
        (Raise e, c') \<Rightarrow> (Raise e, c')
      | (Return u, c') \<Rightarrow> listen_for_events env timeout c')"

text \<open>
  \<^verbatim>\<open>upload\<close>. The handler catches a \<^verbatim>\<open>MatrixRequestError\<close> of the transport and raises a
  new one with the same code; the \<^verbatim>\<open>MatrixUnexpectedResponse\<close> raised inside \<^verbatim>\<open>try\<close> is of
  another class and passes the handler.
\<close>

definition upload :: "env \<Rightarrow> string \<Rightarrow> string \<Rightarrow> json prog" where
  "upload env content content_type c =
     (case api env (MediaUpload content content_type) c of
        (Raise (MatrixRequestError code cont), c') \<Rightarrow>
          (Raise (MatrixRequestError code (''Upload failed: '' @ error_str env code cont)), c')
      | (Raise e, c') \<Rightarrow> (Raise e, c')
      | (Return response, c') \<Rightarrow>
          (case py_contains ''content_uri'' response of
             Inl e \<Rightarrow> (Raise e, c')
           | Inr True \<Rightarrow> lift (py_getitem response ''content_uri'') c'
           | Inr False \<Rightarrow>
               (Raise (MatrixUnexpectedResponse
                  ''The upload was successful, but content_uri wasn't found.''), c')))"

section \<open>Room\<close>

text \<open>
  A method of \<^verbatim>\<open>Room\<close> takes the address of the object it is called on. The methods
  that report a boolean catch \<^verbatim>\<open>MatrixRequestError\<close> and nothing else.
\<close>

definition room_add_listener :: "nat \<Rightarrow> nat \<Rightarrow> client \<Rightarrow> client" where
  "room_add_listener self cb c =
     update_room self (\<lambda>r. r\<lparr>room_listeners := room_listeners r @ [cb]\<rparr>) c"

definition get_events :: "nat \<Rightarrow> client \<Rightarrow> json list" where
  "get_events self c = events (heap c ! self)"

definition invite_user :: "env \<Rightarrow> nat \<Rightarrow> string \<Rightarrow> bool prog" where
  "invite_user env self user_id c =
     (case api env (InviteUser (room_id (heap c ! self)) user_id) c of
        (Raise (MatrixRequestError code cont), c') \<Rightarrow> (Return False, c')
      | (Raise e, c') \<Rightarrow> (Raise e, c')
      | (Return response, c') \<Rightarrow> (Return True, c'))"

definition kick_user :: "env \<Rightarrow> nat \<Rightarrow> string \<Rightarrow> string \<Rightarrow> bool prog" where
  "kick_user env self user_id reason c =
     (case api env (KickUser (room_id (heap c ! self)) user_id) c of
        (Raise (MatrixRequestError code cont), c') \<Rightarrow> (Return False, c')
      | (Raise e, c') \<Rightarrow> (Raise e, c')
      | (Return response, c') \<Rightarrow> (Return True, c'))"

definition ban_user :: "env \<Rightarrow> nat \<Rightarrow> string \<Rightarrow> string \<Rightarrow> bool prog" where
  "ban_user env self user_id reason c =
     (case api env (BanUser (room_id (heap c ! self)) user_id reason) c of
        (Raise (MatrixRequestError code cont), c') \<Rightarrow> (Return False, c')
      | (Raise e, c') \<Rightarrow> (Raise e, c')
      | (Return response, c') \<Rightarrow> (Return True, c'))"

text \<open>
  \<^verbatim>\<open>leave\<close>. After the transport call, \<^verbatim>\<open>self.client.rooms.remove(self.room_id)\<close> looks
  up the attribute \<^verbatim>\<open>remove\<close> of a dictionary. A dictionary has no such attribute: the
  lookup raises AttributeError, which the handler does not catch, and
  \<^verbatim>\<open>return True\<close> is not reached.
\<close>

definition leave :: "env \<Rightarrow> nat \<Rightarrow> bool prog" where
  "leave env self c =
     (case api env (LeaveRoom (room_id (heap c ! self))) c of
        (Raise (MatrixRequestError code cont), c') \<Rightarrow> (Return False, c')
      | (Raise e, c') \<Rightarrow> (Raise e, c')
      | (Return response, c') \<Rightarrow> (Raise AttributeError, c'))"

text \<open>
  \<^verbatim>\<open>update_aliases\<close>. The guard of the loop body is
  \<^verbatim>\<open>"content" in chunk and "aliases" in chunk["content"]\<close>. The method returns inside
  the loop at the first chunk that passes the guard; when no chunk does, the loop ends
  and the method returns \<^verbatim>\<open>None\<close>.
\<close>

definition has_aliases :: "json \<Rightarrow> error + bool" where
  "has_aliases chunk =
     (case py_contains ''content'' chunk of
        Inl e \<Rightarrow> Inl e
      | Inr False \<Rightarrow> Inr False
      | Inr True \<Rightarrow>
          (case py_getitem chunk ''content'' of
             Inl e \<Rightarrow> Inl e
           | Inr content \<Rightarrow> py_contains ''aliases'' content))"

primrec scan_aliases :: "json list \<Rightarrow> nat \<Rightarrow> bool option prog" where
  "scan_aliases [] self c = (Return None, c)"
| "scan_aliases (chunk # rest) self c =
     (case has_aliases chunk of
        Inl e \<Rightarrow> (Raise e, c)
      | Inr False \<Rightarrow> scan_aliases rest self c
      | Inr True \<Rightarrow>
          (case content_field chunk ''aliases'' of
             Inl e \<Rightarrow> (Raise e, c)
           | Inr found \<Rightarrow>
               if \<not> py_eq found (aliases (heap c ! self)) then
                 (case content_field chunk ''aliases'' of
                    Inl e \<Rightarrow> (Raise e, c)
                  | Inr v \<Rightarrow> (Return (Some True), update_room self (\<lambda>r. r\<lparr>aliases := v\<rparr>) c))
               else (Return (Some False), c)))"

definition update_aliases :: "env \<Rightarrow> nat \<Rightarrow> bool option prog" where
  "update_aliases env self c =
     (case api env (GetRoomState (room_id (heap c ! self))) c of
        (Raise (MatrixRequestError code cont), c') \<Rightarrow> (Return (Some False), c')
      | (Raise e, c') \<Rightarrow> (Raise e, c')
      | (Return response, c') \<Rightarrow>
          (case py_iter response of
             Inl e \<Rightarrow> (Raise e, c')
           | Inr chunks \<Rightarrow> scan_aliases chunks self c'))"

section \<open>Example states and surroundings\<close>

text \<open>
  A client that knows one room, \<^verbatim>\<open>!a:x\<close>, with one logged message and one room callback,
  and has two global callbacks and a cursor.
\<close>

definition example_room :: room where
  "example_room =
     (Room_init (JStr ''!a:x''))
       \<lparr>room_listeners := [7],
        events := [JObj [(''type'', JStr ''m.room.message''), (''body'', JStr ''hi'')]]\<rparr>"

definition example_client :: client where
  "example_client =
     \<lparr>listeners = [1, 2], rooms = [(JStr ''!a:x'', 0)], end_token = Some (JStr ''tok1''),
      heap = [example_room], trace = []\<rparr>"

text \<open>Surroundings in which the transport gives one fixed reply and no callback raises.\<close>

definition reply_env :: "(error + json) \<Rightarrow> env" where
  "reply_env reply =
     \<lparr>transport = (\<lambda>tr call. reply), callback = (\<lambda>tr l chunk. None),
      error_str = (\<lambda>code cont. cont)\<rparr>"

definition name_event :: json where
  "name_event =
     JObj [(''type'', JStr ''m.room.name''), (''content'', JObj [(''name'', JStr ''Lobby'')])]"

definition alias_event :: "string \<Rightarrow> json" where
  "alias_event a =
     JObj [(''type'', JStr ''m.room.aliases''), (''content'', JObj [(''aliases'', JList [JStr a])])]"

definition state_response :: json where
  "state_response = JList [name_event, alias_event ''#a:x'', alias_event ''#b:x'']"

definition message_chunk :: json where
  "message_chunk =
     JObj [(''type'', JStr ''m.room.message''), (''room_id'', JStr ''!a:x''), (''body'', JStr ''yo'')]"

definition poll_response :: json where
  "poll_response = JObj [(''end'', JStr ''tok2''), (''chunk'', JList [message_chunk])]"

definition empty_poll_response :: json where
  "empty_poll_response = JObj [(''end'', JStr ''tok3''), (''chunk'', JList [])]"

text \<open>
  Surroundings in which the event stream replies \<open>poll_response\<close> to the cursor
  \<^verbatim>\<open>tok1\<close> and a response with an empty chunk list to any other call.
\<close>

definition stream_env :: env where
  "stream_env =
     \<lparr>transport = (\<lambda>tr call. if call = EventStream (JStr ''tok1'') 30000
                              then Inr poll_response else Inr empty_poll_response),
      callback = (\<lambda>tr l chunk. None),
      error_str = (\<lambda>code cont. cont)\<rparr>"

section \<open>Properties kept by a sequence of statements\<close>

text \<open>\<open>keeps g m\<close>: running \<open>m\<close> leaves the observation \<open>g\<close> of the client as it was.\<close>

definition keeps :: "(client \<Rightarrow> 'b) \<Rightarrow> 'a prog \<Rightarrow> bool" where
  "keeps g m = (\<forall>c. g (snd (m c)) = g c)"

section \<open>Responses with missing keys\<close>

text \<open>
  The shape of an initial-sync response in which any expected key may be missing: the
  response and every room descriptor are dictionaries; where present, \<^verbatim>\<open>rooms\<close> is a
  list of room descriptors, \<^verbatim>\<open>room_id\<close> is hashable, \<^verbatim>\<open>messages\<close> is a dictionary whose
  \<^verbatim>\<open>chunk\<close> is a list, \<^verbatim>\<open>state\<close> is a list of dictionaries, and the \<^verbatim>\<open>content\<close> of a
  state event is a dictionary.
\<close>

definition is_dict :: "json \<Rightarrow> bool" where
  "is_dict j = (case j of JObj kvs \<Rightarrow> True | _ \<Rightarrow> False)"

definition absent_or :: "(json \<Rightarrow> bool) \<Rightarrow> json \<Rightarrow> string \<Rightarrow> bool" where
  "absent_or P j k = (case py_getitem j k of Inl e \<Rightarrow> True | Inr v \<Rightarrow> P v)"

definition list_of :: "(json \<Rightarrow> bool) \<Rightarrow> json \<Rightarrow> bool" where
  "list_of P j = (case j of JList xs \<Rightarrow> list_all P xs | _ \<Rightarrow> False)"

definition hashable :: "json \<Rightarrow> bool" where
  "hashable j = (case py_hash j of Inl e \<Rightarrow> False | Inr k \<Rightarrow> True)"

definition partial_state_event :: "json \<Rightarrow> bool" where
  "partial_state_event ev = (is_dict ev \<and> absent_or is_dict ev ''content'')"

definition partial_messages :: "json \<Rightarrow> bool" where
  "partial_messages m = (is_dict m \<and> absent_or (list_of (\<lambda>chunk. True)) m ''chunk'')"

definition partial_room :: "json \<Rightarrow> bool" where
  "partial_room r =
     (is_dict r \<and> absent_or hashable r ''room_id'' \<and> absent_or partial_messages r ''messages''
      \<and> absent_or (list_of partial_state_event) r ''state'')"

definition partial_response :: "json \<Rightarrow> bool" where
  "partial_response response =
     (is_dict response \<and> absent_or (list_of partial_room) response ''rooms'')"

text \<open>An outcome that \<^verbatim>\<open>except KeyError: pass\<close> turns into a normal return.\<close>

definition benign :: "'a result \<Rightarrow> bool" where
  "benign r = (case r of Return v \<Rightarrow> True | Raise e \<Rightarrow> e = KeyError)"

definition partial_sync_response :: json where
  "partial_sync_response =
     JObj [(''end'', JStr ''tok1''),
           (''rooms'', JList
              [JObj [(''room_id'', JStr ''!a:x''),
                     (''messages'', JObj [(''chunk'', JList [JObj [(''type'', JStr ''m.room.message''),
                                                                   (''body'', JStr ''hi'')]])]),
                     (''state'', JList [name_event])],
               JObj [(''room_id'', JStr ''!b:x'')],
               JObj [(''room_id'', JStr ''!c:x'')]])]"

section \<open>What a poll is expected to show\<close>

text \<open>
  The registry is in order when every address it holds is the address of a room object.
\<close>

definition registry_ok :: "client \<Rightarrow> bool" where
  "registry_ok c = list_all (\<lambda>p. snd p < length (heap c)) (rooms c)"

text \<open>The callbacks registered on the room that the registry holds under an identifier.\<close>

definition listeners_of_room :: "client \<Rightarrow> json \<Rightarrow> nat list" where
  "listeners_of_room c rid =
     (case py_hash rid of
        Inl e \<Rightarrow> []
      | Inr k \<Rightarrow>
          (case map_of (rooms c) k of None \<Rightarrow> [] | Some a \<Rightarrow> room_listeners (heap c ! a)))"

text \<open>
  The actions expected for one chunk: every global callback in registration order; then,
  for a chunk that carries \<^verbatim>\<open>room_id\<close>, the append to the log of that room, and then
  the callbacks of that room in registration order.
\<close>

definition chunk_actions :: "client \<Rightarrow> json \<Rightarrow> action list" where
  "chunk_actions c chunk =
     map (\<lambda>l. Invoked l chunk) (listeners c) @
     (case py_getitem chunk ''room_id'' of
        Inl e \<Rightarrow> []
      | Inr rid \<Rightarrow> Appended rid chunk # map (\<lambda>l. Invoked l chunk) (listeners_of_room c rid))"

text \<open>Two client states with the same callbacks, globally and on every room.\<close>

definition same_view :: "client \<Rightarrow> client \<Rightarrow> bool" where
  "same_view c c' =
     (listeners c' = listeners c \<and> registry_ok c' \<and>
      (\<forall>rid. listeners_of_room c' rid = listeners_of_room c rid))"

definition two_chunks :: json where
  "two_chunks =
     JObj [(''end'', JStr ''tok2''),
           (''chunk'', JList
              [message_chunk,
               JObj [(''type'', JStr ''m.presence'')],
               JObj [(''type'', JStr ''m.room.message''), (''room_id'', JStr ''!b:x'')]])]"

section \<open>Runs in which a callback raises\<close>

text \<open>
  \<open>quiet env base acts\<close>: in the actions \<open>acts\<close>, observed after the actions \<open>base\<close>, every
  invoked callback returned.
\<close>

fun quiet :: "env \<Rightarrow> action list \<Rightarrow> action list \<Rightarrow> bool" where
  "quiet env base [] = True"
| "quiet env base (a # rest) =
     ((case a of Invoked l chunk \<Rightarrow> callback env base l chunk = None | _ \<Rightarrow> True)
      \<and> quiet env (base @ [a]) rest)"

text \<open>The exception an outcome raises, if any.\<close>

definition raised :: "'a result \<Rightarrow> error option" where
  "raised r = (case r of Return v \<Rightarrow> None | Raise e \<Rightarrow> Some e)"

text \<open>
  The shape of a run from the trace \<open>t\<close> to the trace \<open>t'\<close> with the raised exception
  \<open>out\<close>: actions are added at the end, and either every invoked callback returned, or
  the last action is the invocation of a callback that raised, all callbacks before it
  returned, and the run raised the exception of that callback.
\<close>

definition run_shape :: "env \<Rightarrow> action list \<Rightarrow> error option \<Rightarrow> action list \<Rightarrow> bool" where
  "run_shape env t out t' =
     (\<exists>app. t' = t @ app \<and>
        (quiet env t app \<or>
         (\<exists>app' l chunk e. app = app' @ [Invoked l chunk] \<and> quiet env t app' \<and>
            callback env (t @ app') l chunk = Some e \<and> out = Some e)))"

text \<open>A sequence of statements all of whose runs have this shape.\<close>

definition traced :: "env \<Rightarrow> 'a prog \<Rightarrow> bool" where
  "traced env m = (\<forall>c. run_shape env (trace c) (raised (fst (m c))) (trace (snd (m c))))"

text \<open>Surroundings in which the callback 1 raises and the event stream replies \<open>poll_response\<close>.\<close>

definition raising_env :: env where
  "raising_env =
     \<lparr>transport = (\<lambda>tr call. Inr poll_response),
      callback = (\<lambda>tr l chunk. if l = 1 then Some (OtherError ''boom'') else None),
      error_str = (\<lambda>code cont. cont)\<rparr>"

section \<open>Facts about the Python operations\<close>

lemma py_eq_JStr: "py_eq x (JStr s) = (x = JStr s)"
  by (cases x) auto

lemma getitem_contains: "py_getitem r k = Inr v \<Longrightarrow> py_contains k r = Inr True"
  by (cases r) (auto split: option.splits dest: map_of_SomeD intro: rev_image_eqI)

section \<open>The state projection\<close>

lemma process_state_event_twice:
  "process_state_event ev (snd (process_state_event ev r)) = process_state_event ev r"
proof (cases "py_contains ''type'' ev")
  case (Inl e)
  then show ?thesis by (simp add: process_state_event_def)
next
  case (Inr b)
  show ?thesis
  proof (cases b)
    case False
    with Inr show ?thesis by (simp add: process_state_event_def)
  next
    case True
    with Inr have c: "py_contains ''type'' ev = Inr True" by simp
    show ?thesis
    proof (cases "py_getitem ev ''type''")
      case (Inl e)
      with c show ?thesis by (simp add: process_state_event_def)
    next
      case g: (Inr etype)
      consider (n) "etype = JStr ''m.room.name''" | (t) "etype = JStr ''m.room.topic''"
        | (a) "etype = JStr ''m.room.aliases''"
        | (o) "etype \<noteq> JStr ''m.room.name''" "etype \<noteq> JStr ''m.room.topic''"
              "etype \<noteq> JStr ''m.room.aliases''"
        by blast
      then show ?thesis
      proof cases
        case n
        with c g show ?thesis
          by (cases "content_field ev ''name''") (simp_all add: process_state_event_def)
      next
        case t
        with c g show ?thesis
          by (cases "content_field ev ''topic''") (simp_all add: process_state_event_def)
      next
        case a
        with c g show ?thesis
          by (cases "content_field ev ''aliases''") (simp_all add: process_state_event_def)
      next
        case o
        with c g show ?thesis by (simp add: process_state_event_def py_eq_JStr)
      qed
    qed
  qed
qed

lemma process_state_event_no_type:
  "py_contains ''type'' ev = Inr False \<Longrightarrow> process_state_event ev r = (Return (), r)"
  by (simp add: process_state_event_def)

lemma process_state_event_unknown_type:
  assumes "py_getitem ev ''type'' = Inr etype"
    and "etype \<noteq> JStr ''m.room.name''" "etype \<noteq> JStr ''m.room.topic''"
    and "etype \<noteq> JStr ''m.room.aliases''"
  shows "process_state_event ev r = (Return (), r)"
  using assms getitem_contains [OF assms(1)]
  by (simp add: process_state_event_def py_eq_JStr)

text \<open>
  C7. The state projection is idempotent: applying a state event to the room that a first
  application of the same event left gives the same outcome and the same room (name,
  topic, aliases and every other field). An event without a \<^verbatim>\<open>type\<close> field, and an
  event whose type is none of \<^verbatim>\<open>m.room.name\<close>, \<^verbatim>\<open>m.room.topic\<close>, \<^verbatim>\<open>m.room.aliases\<close>,
  leaves the room as it was.
\<close>

theorem process_state_event_idempotent:
  "process_state_event ev (snd (process_state_event ev r)) = process_state_event ev r
   \<and> (py_contains ''type'' ev0 = Inr False \<longrightarrow> process_state_event ev0 r = (Return (), r))
   \<and> (py_getitem ev1 ''type'' = Inr etype \<longrightarrow>
        etype \<noteq> JStr ''m.room.name'' \<longrightarrow> etype \<noteq> JStr ''m.room.topic'' \<longrightarrow>
        etype \<noteq> JStr ''m.room.aliases'' \<longrightarrow>
        process_state_event ev1 r = (Return (), r))"
  using process_state_event_twice process_state_event_no_type process_state_event_unknown_type
  by blast

theorem process_state_event_idempotent_witness:
  "process_state_event name_event (snd (process_state_event name_event example_room)) =
     (Return (), example_room\<lparr>name := JStr ''Lobby''\<rparr>)
   \<and> process_state_event name_event example_room =
     (Return (), example_room\<lparr>name := JStr ''Lobby''\<rparr>)
   \<and> py_contains ''type'' (JObj [(''content'', JObj [(''name'', JStr ''Lobby'')])]) = Inr False
   \<and> process_state_event (JObj [(''content'', JObj [(''name'', JStr ''Lobby'')])]) example_room =
     (Return (), example_room)
   \<and> py_getitem (JObj [(''type'', JStr ''m.room.member'')]) ''type'' = Inr (JStr ''m.room.member'')
   \<and> process_state_event (JObj [(''type'', JStr ''m.room.member'')]) example_room =
     (Return (), example_room)"
  using process_state_event_idempotent
    [of name_event example_room "JObj [(''content'', JObj [(''name'', JStr ''Lobby'')])]"
        "JObj [(''type'', JStr ''m.room.member'')]" "JStr ''m.room.member''"]
  by (simp add: name_event_def process_state_event_def content_field_def)

section \<open>Media upload\<close>

text \<open>
  C9. When the media upload call of the transport succeeds and the response lacks
  \<^verbatim>\<open>content_uri\<close>, \<^verbatim>\<open>upload\<close> raises \<^verbatim>\<open>MatrixUnexpectedResponse\<close>; when the call fails
  with a \<^verbatim>\<open>MatrixRequestError\<close>, \<^verbatim>\<open>upload\<close> raises a \<^verbatim>\<open>MatrixRequestError\<close> with the same
  code to its caller; and when the response carries \<^verbatim>\<open>content_uri\<close>, that value is
  returned.
\<close>

theorem upload_surfaces_errors:
  "(transport env1 (trace c1) (MediaUpload content1 ct1) = Inr response1 \<longrightarrow>
      py_contains ''content_uri'' response1 = Inr False \<longrightarrow>
      fst (upload env1 content1 ct1 c1) =
        Raise (MatrixUnexpectedResponse
          ''The upload was successful, but content_uri wasn't found.''))
   \<and> (transport env2 (trace c2) (MediaUpload content2 ct2) = Inl (MatrixRequestError code cont) \<longrightarrow>
      fst (upload env2 content2 ct2 c2) =
        Raise (MatrixRequestError code (''Upload failed: '' @ error_str env2 code cont)))
   \<and> (transport env3 (trace c3) (MediaUpload content3 ct3) = Inr response3 \<longrightarrow>
      py_getitem response3 ''content_uri'' = Inr uri \<longrightarrow>
      fst (upload env3 content3 ct3 c3) = Return uri)"
  by (auto simp: upload_def api_def lift_def getitem_contains)

theorem upload_surfaces_errors_witness:
  "fst (upload (reply_env (Inr (JObj [(''other'', JInt 1)]))) ''data'' ''image/png'' example_client) =
     Raise (MatrixUnexpectedResponse ''The upload was successful, but content_uri wasn't found.'')
   \<and> fst (upload (reply_env (Inl (MatrixRequestError 500 ''down''))) ''data'' ''image/png''
        example_client) =
     Raise (MatrixRequestError 500 ''Upload failed: down'')
   \<and> fst (upload (reply_env (Inr (JObj [(''content_uri'', JStr ''mxc://x/1'')]))) ''data''
        ''image/png'' example_client) =
     Return (JStr ''mxc://x/1'')"
  using upload_surfaces_errors
    [of "reply_env (Inr (JObj [(''other'', JInt 1)]))" example_client "''data''" "''image/png''"
        "JObj [(''other'', JInt 1)]"
        "reply_env (Inl (MatrixRequestError 500 ''down''))" example_client "''data''"
        "''image/png''" 500 "''down''"
        "reply_env (Inr (JObj [(''content_uri'', JStr ''mxc://x/1'')]))" example_client "''data''"
        "''image/png''" "JObj [(''content_uri'', JStr ''mxc://x/1'')]" "JStr ''mxc://x/1''"]
  by (simp add: reply_env_def)

section \<open>Room methods\<close>

text \<open>
  C10. Two calls of \<^verbatim>\<open>kick_user\<close> on the same room and user that differ only in the
  reason behave alike: the same call on the transport, the same result, the same client
  state. The call that reaches the transport carries the room identifier and the user
  identifier and no reason.
\<close>

theorem kick_user_reason_unused:
  "kick_user env self user_id r1 c = kick_user env self user_id r2 c
   \<and> trace (snd (kick_user env self user_id r1 c)) =
       trace c @ [ApiCall (KickUser (room_id (heap c ! self)) user_id)]"
  by (simp add: kick_user_def api_def lift_def log_action_def split: sum.splits error.splits)

text \<open>
  C2, on the example client, whose registry holds the room \<^verbatim>\<open>!a:x\<close> at address 0: when
  the leave call of the transport succeeds, \<^verbatim>\<open>leave\<close> raises AttributeError instead of
  returning a boolean, and the registry still holds the room.
\<close>

theorem leave_after_success:
  "leave (reply_env (Inr (JObj []))) 0 example_client =
     (Raise AttributeError, log_action (ApiCall (LeaveRoom (JStr ''!a:x''))) example_client)
   \<and> rooms (snd (leave (reply_env (Inr (JObj []))) 0 example_client)) = [(JStr ''!a:x'', 0)]"
  by (simp add: leave_def api_def lift_def reply_env_def example_client_def example_room_def
      Room_init_def log_action_def)

section \<open>Room creation\<close>

text \<open>
  C1, on the example client: joining the room \<^verbatim>\<open>!a:x\<close>, which the registry holds at
  address 0 with one logged event and one callback, returns a new room object at
  address 1; the registry then maps \<^verbatim>\<open>!a:x\<close> to that object, whose event log and callback
  list are empty.
\<close>

theorem join_room_known_id:
  "map_of (rooms example_client) (JStr ''!a:x'') = Some 0
   \<and> events (heap example_client ! 0) \<noteq> []
   \<and> room_listeners (heap example_client ! 0) = [7]
   \<and> fst (join_room (reply_env (Inr (JObj [(''room_id'', JStr ''!a:x'')]))) ''!a:x'' example_client)
       = Return 1
   \<and> map_of (rooms (snd (join_room (reply_env (Inr (JObj [(''room_id'', JStr ''!a:x'')])))
         ''!a:x'' example_client))) (JStr ''!a:x'') = Some 1
   \<and> events (heap (snd (join_room (reply_env (Inr (JObj [(''room_id'', JStr ''!a:x'')])))
         ''!a:x'' example_client)) ! 1) = []
   \<and> room_listeners (heap (snd (join_room (reply_env (Inr (JObj [(''room_id'', JStr ''!a:x'')])))
         ''!a:x'' example_client)) ! 1) = []"
  by (simp add: join_room_def mkroom_def rooms_getitem_def bind_def api_def lift_def reply_env_def
      example_client_def example_room_def Room_init_def log_action_def)

section \<open>Statements that keep an observation\<close>

lemma keepsI: "(\<And>c. g (snd (m c)) = g c) \<Longrightarrow> keeps g m"
  by (simp add: keeps_def)

lemma keeps_bind:
  assumes "keeps g m" and "\<And>v. keeps g (f v)"
  shows "keeps g (bind m f)"
proof (rule keepsI)
  fix c
  obtain r c1 where mc: "m c = (r, c1)" by (cases "m c")
  from assms(1) mc have g1: "g c1 = g c" by (auto simp: keeps_def dest: spec [of _ c])
  show "g (snd (bind m f c)) = g c"
  proof (cases r)
    case (Return v)
    with mc have "bind m f c = f v c1" by (simp add: bind_def)
    with assms(2) [of v] g1 show ?thesis by (simp add: keeps_def)
  next
    case (Raise e)
    with mc g1 show ?thesis by (simp add: bind_def)
  qed
qed

lemma keeps_lift: "keeps g (lift x)"
  by (cases x) (simp_all add: keeps_def lift_def)

lemma keeps_skip: "keeps g (\<lambda>c. (Return v, c))"
  by (simp add: keeps_def)

lemma keeps_if: "keeps g m \<Longrightarrow> keeps g n \<Longrightarrow> keeps g (if b then m else n)"
  by simp

lemma keeps_rooms_getitem: "keeps g (rooms_getitem key)"
  by (simp add: keeps_def rooms_getitem_def split: sum.splits option.splits)

lemma keeps_rooms_contains: "keeps g (rooms_contains key)"
  by (simp add: keeps_def rooms_contains_def split: sum.splits option.splits)

section \<open>The cursor\<close>

lemma keeps_end_mkroom: "keeps end_token (mkroom rid)"
  by (simp add: keeps_def mkroom_def rooms_getitem_def Let_def split: sum.splits option.splits)

lemma end_run_listeners: "end_token (snd (run_listeners env ls chunk c)) = end_token c"
  by (induction ls arbitrary: c) (simp_all add: log_action_def split: option.splits)

lemma keeps_end_dispatch_chunk: "keeps end_token (dispatch_chunk env chunk)"
  unfolding dispatch_chunk_def ensure_room_def append_event_def room_fan_out_def
  by (intro keeps_bind keeps_lift keeps_if keeps_skip keeps_rooms_getitem keeps_rooms_contains
      keeps_end_mkroom keepsI end_run_listeners)
    (simp_all add: log_action_def update_room_def)

lemma end_dispatch_chunks: "end_token (snd (dispatch_chunks env chunks c)) = end_token c"
proof (induction chunks arbitrary: c)
  case Nil
  show ?case by simp
next
  case (Cons chunk rest)
  obtain r c1 where d: "dispatch_chunk env chunk c = (r, c1)"
    by (cases "dispatch_chunk env chunk c")
  with keeps_end_dispatch_chunk [of env chunk] have e: "end_token c1 = end_token c"
    by (auto simp: keeps_def dest: spec [of _ c])
  show ?case using d e Cons.IH [of c1] by (cases r) simp_all
qed

lemma cursor_after_call:
  assumes "end_token c = Some cursor"
    and "transport env (trace c) (EventStream cursor timeout) = Inr response"
    and "py_getitem response ''end'' = Inr v"
  shows "end_token (snd (listen_for_events env timeout c)) = Some v"
proof -
  let ?c1 = "(log_action (ApiCall (EventStream cursor timeout)) c)\<lparr>end_token := Some v\<rparr>"
  let ?rest = "bind (lift (py_getitem response ''chunk''))
                 (\<lambda>ch. bind (lift (py_iter ch)) (dispatch_chunks env))"
  have "listen_for_events env timeout c = ?rest ?c1"
    using assms by (simp add: listen_for_events_def bind_def get_end_def api_def lift_def)
  moreover have "keeps end_token ?rest"
    by (intro keeps_bind keeps_lift keepsI end_dispatch_chunks)
  ultimately show ?thesis by (simp add: keeps_def)
qed

text \<open>
  C5. In a sequence of calls of \<^verbatim>\<open>listen_for_events\<close>, let \<open>n\<close> calls have returned and
  let the event-stream call of the next one succeed with a response that carries
  \<^verbatim>\<open>end\<close>. After that call the cursor equals that value, whatever the chunk list holds,
  also when it is empty or missing, and whatever happens while the chunks are processed:
  the cursor is assigned before the first chunk is looked at and nothing after assigns
  it.
\<close>

theorem cursor_follows_response:
  assumes "listen_times env timeout n c = (Return (), cn)"
    and "end_token cn = Some cursor"
    and "transport env (trace cn) (EventStream cursor timeout) = Inr response"
    and "py_getitem response ''end'' = Inr v"
  shows "end_token (snd (listen_times env timeout (Suc n) c)) = Some v"
  using assms(1) cursor_after_call [OF assms(2-4)] by simp

theorem cursor_follows_response_witness:
  "listen_times stream_env 30000 0 example_client = (Return (), example_client)
   \<and> end_token example_client = Some (JStr ''tok1'')
   \<and> py_getitem poll_response ''end'' = Inr (JStr ''tok2'')
   \<and> fst (listen_times stream_env 30000 (Suc 0) example_client) = Return ()
   \<and> end_token (snd (listen_times stream_env 30000 (Suc 0) example_client)) =
       Some (JStr ''tok2'')
   \<and> transport stream_env (trace (snd (listen_times stream_env 30000 (Suc 0) example_client)))
       (EventStream (JStr ''tok2'') 30000) = Inr empty_poll_response
   \<and> py_getitem empty_poll_response ''end'' = Inr (JStr ''tok3'')
   \<and> py_getitem empty_poll_response ''chunk'' = Inr (JList [])
   \<and> end_token (snd (listen_times stream_env 30000 (Suc (Suc 0)) example_client)) =
       Some (JStr ''tok3'')"
proof -
  let ?c1 = "snd (listen_times stream_env 30000 (Suc 0) example_client)"
  have r0: "listen_times stream_env 30000 0 example_client = (Return (), example_client)"
    by simp
  have e0: "end_token example_client = Some (JStr ''tok1'')"
    by (simp add: example_client_def)
  have t0: "transport stream_env (trace example_client) (EventStream (JStr ''tok1'') 30000) =
      Inr poll_response"
    by (simp add: stream_env_def)
  have g0: "py_getitem poll_response ''end'' = Inr (JStr ''tok2'')"
    by (simp add: poll_response_def)
  have r1: "listen_times stream_env 30000 (Suc 0) example_client = (Return (), ?c1)"
    by (simp add: listen_for_events_def dispatch_chunk_def ensure_room_def append_event_def
        room_fan_out_def bind_def get_end_def api_def lift_def
        stream_env_def example_client_def example_room_def poll_response_def message_chunk_def
        log_action_def rooms_contains_def rooms_getitem_def update_room_def Room_init_def)
  have e1: "end_token ?c1 = Some (JStr ''tok2'')"
    using cursor_follows_response [OF r0 e0 t0 g0] .
  have t1: "transport stream_env (trace ?c1) (EventStream (JStr ''tok2'') 30000) =
      Inr empty_poll_response"
    by (simp add: stream_env_def)
  have g1: "py_getitem empty_poll_response ''end'' = Inr (JStr ''tok3'')"
    by (simp add: empty_poll_response_def)
  have g2: "py_getitem empty_poll_response ''chunk'' = Inr (JList [])"
    by (simp add: empty_poll_response_def)
  from r1 have f1: "fst (listen_times stream_env 30000 (Suc 0) example_client) = Return ()"
    by (metis fst_conv)
  from cursor_follows_response [OF r1 e1 t1 g1] r0 e0 g0 f1 e1 t1 g1 g2 show ?thesis
    by simp
qed

section \<open>The alias scan\<close>

lemma scan_aliases_skips:
  "list_all (\<lambda>ch. has_aliases ch = Inr False) pre \<Longrightarrow>
   scan_aliases (pre @ rest) self c = scan_aliases rest self c"
  by (induction pre) simp_all

lemma scan_aliases_first:
  "has_aliases m = Inr True \<Longrightarrow> scan_aliases (m # rest) self c = scan_aliases [m] self c"
  by simp

lemma scan_aliases_found:
  assumes "has_aliases m = Inr True" and "content_field m ''aliases'' = Inr al"
  shows "scan_aliases (m # rest) self c =
           (if \<not> py_eq al (aliases (heap c ! self))
            then (Return (Some True), update_room self (\<lambda>r. r\<lparr>aliases := al\<rparr>) c)
            else (Return (Some False), c))"
  using assms by simp

text \<open>
  C8. Let the room-state response be a list in which \<open>m\<close> is the first chunk that
  passes the guard \<^verbatim>\<open>"content" in chunk and "aliases" in chunk["content"]\<close> (the chunks
  before it fail the guard), followed by any chunks \<open>rest\<close>, alias-bearing or not. Then
  \<^verbatim>\<open>update_aliases\<close> does what it does on the response that consists of \<open>m\<close> alone: the
  result and the cache update are decided by \<open>m\<close>, and \<open>rest\<close> is never looked at. When
  \<open>m\<close> carries the aliases \<open>al\<close>, the result is true with the cache set to \<open>al\<close> if \<open>al\<close>
  differs from the cache, and false with the cache unchanged otherwise.
\<close>

theorem update_aliases_first_match:
  assumes "transport env (trace c) (GetRoomState (room_id (heap c ! self))) =
             Inr (JList (pre @ m # rest))"
    and "transport env' (trace c) (GetRoomState (room_id (heap c ! self))) = Inr (JList [m])"
    and "list_all (\<lambda>ch. has_aliases ch = Inr False) pre"
    and "has_aliases m = Inr True"
  shows "update_aliases env self c = update_aliases env' self c
         \<and> (content_field m ''aliases'' = Inr al \<longrightarrow>
            update_aliases env self c =
              (if \<not> py_eq al (aliases (heap c ! self))
               then (Return (Some True),
                     update_room self (\<lambda>r. r\<lparr>aliases := al\<rparr>)
                       (log_action (ApiCall (GetRoomState (room_id (heap c ! self)))) c))
               else (Return (Some False),
                     log_action (ApiCall (GetRoomState (room_id (heap c ! self)))) c)))"
proof -
  let ?c0 = "log_action (ApiCall (GetRoomState (room_id (heap c ! self)))) c"
  have a: "update_aliases env self c = scan_aliases (pre @ m # rest) self ?c0"
    using assms(1) by (simp add: update_aliases_def api_def lift_def)
  have b: "update_aliases env' self c = scan_aliases [m] self ?c0"
    using assms(2) by (simp add: update_aliases_def api_def lift_def)
  have s: "scan_aliases (pre @ m # rest) self ?c0 = scan_aliases (m # rest) self ?c0"
    using assms(3) by (rule scan_aliases_skips)
  have h: "heap ?c0 = heap c" by (simp add: log_action_def)
  show ?thesis
    using a b s scan_aliases_first [OF assms(4), of rest self ?c0]
      scan_aliases_found [OF assms(4), of al rest self ?c0] h
    by (simp del: scan_aliases.simps)
qed

theorem update_aliases_first_match_witness:
  "transport (reply_env (Inr state_response)) (trace example_client)
       (GetRoomState (room_id (heap example_client ! 0))) =
     Inr (JList ([name_event] @ alias_event ''#a:x'' # [alias_event ''#b:x'']))
   \<and> list_all (\<lambda>ch. has_aliases ch = Inr False) [name_event]
   \<and> has_aliases (alias_event ''#a:x'') = Inr True
   \<and> has_aliases (alias_event ''#b:x'') = Inr True
   \<and> content_field (alias_event ''#a:x'') ''aliases'' = Inr (JList [JStr ''#a:x''])
   \<and> update_aliases (reply_env (Inr state_response)) 0 example_client =
       update_aliases (reply_env (Inr (JList [alias_event ''#a:x'']))) 0 example_client
   \<and> update_aliases (reply_env (Inr state_response)) 0 example_client =
       (Return (Some True),
        update_room 0 (\<lambda>r. r\<lparr>aliases := JList [JStr ''#a:x'']\<rparr>)
          (log_action (ApiCall (GetRoomState (JStr ''!a:x''))) example_client))"
  using update_aliases_first_match
    [of "reply_env (Inr state_response)" example_client 0 "[name_event]" "alias_event ''#a:x''"
        "[alias_event ''#b:x'']" "reply_env (Inr (JList [alias_event ''#a:x'']))"
        "JList [JStr ''#a:x'']"]
  by (simp add: state_response_def reply_env_def example_client_def example_room_def Room_init_def
      has_aliases_def content_field_def name_event_def alias_event_def update_aliases_def
      api_def lift_def log_action_def update_room_def)

section \<open>The initial sync and missing keys\<close>

lemma benign_simps [simp]: "benign (Return v)" "benign (Raise e) = (e = KeyError)"
  by (simp_all add: benign_def)

lemma dict_getitem: "is_dict j \<Longrightarrow> py_getitem j k = Inl e \<Longrightarrow> e = KeyError"
  by (cases j) (auto simp: is_dict_def split: option.splits)

lemma dict_contains: "is_dict j \<Longrightarrow> \<exists>b. py_contains k j = Inr b"
  by (cases j) (auto simp: is_dict_def)

lemma benign_lift_getitem: "is_dict j \<Longrightarrow> benign (fst (lift (py_getitem j k) c))"
  by (cases "py_getitem j k") (auto simp: lift_def dest: dict_getitem)

lemma content_field_benign:
  assumes "partial_state_event ev" and "content_field ev k = Inl e"
  shows "e = KeyError"
proof (cases "py_getitem ev ''content''")
  case (Inl e')
  with assms show ?thesis
    by (auto simp: content_field_def partial_state_event_def dest: dict_getitem)
next
  case (Inr content)
  with assms have "is_dict content" by (simp add: partial_state_event_def absent_or_def)
  with assms Inr show ?thesis by (auto simp: content_field_def dest: dict_getitem)
qed

lemma process_state_event_benign:
  assumes "partial_state_event ev"
  shows "benign (fst (process_state_event ev r))"
proof -
  from assms have d: "is_dict ev" by (simp add: partial_state_event_def)
  from dict_contains [OF d] obtain b where c: "py_contains ''type'' ev = Inr b" by blast
  show ?thesis
  proof (cases b)
    case False
    with c show ?thesis by (simp add: process_state_event_def)
  next
    case True
    with c have c': "py_contains ''type'' ev = Inr True" by simp
    show ?thesis
    proof (cases "py_getitem ev ''type''")
      case (Inl e)
      with c' dict_getitem [OF d Inl] show ?thesis by (simp add: process_state_event_def)
    next
      case g: (Inr etype)
      have cf: "\<And>k. benign (fst (case content_field ev k of Inl e \<Rightarrow> (Raise e, r)
                   | Inr v \<Rightarrow> (Return (), f v)))" for f :: "json \<Rightarrow> room"
        subgoal for k
          by (cases "content_field ev k") (auto dest: content_field_benign [OF assms])
        done
      show ?thesis
        using c' g cf [of "\<lambda>v. r\<lparr>name := v\<rparr>" "''name''"] cf [of "\<lambda>v. r\<lparr>topic := v\<rparr>" "''topic''"]
          cf [of "\<lambda>v. r\<lparr>aliases := v\<rparr>" "''aliases''"]
        by (simp add: process_state_event_def)
    qed
  qed
qed

lemma process_state_events_benign:
  "list_all partial_state_event evs \<Longrightarrow> benign (fst (process_state_events evs r))"
proof (induction evs arbitrary: r)
  case Nil
  show ?case by simp
next
  case (Cons ev evs)
  obtain out r1 where p: "process_state_event ev r = (out, r1)"
    by (cases "process_state_event ev r")
  from Cons.prems have "partial_state_event ev" by simp
  from process_state_event_benign [OF this, of r] p have b: "benign out" by simp
  from Cons.prems have "list_all partial_state_event evs" by simp
  from Cons.IH [OF this, of r1] p b show ?case by (cases out) simp_all
qed


lemma benign_bind:
  assumes "benign (fst (m c))"
    and "\<And>v c1. m c = (Return v, c1) \<Longrightarrow> benign (fst (f v c1))"
  shows "benign (fst (bind m f c))"
proof -
  obtain out c1 where mc: "m c = (out, c1)" by (cases "m c")
  show ?thesis
  proof (cases out)
    case (Return v)
    with mc assms(2) [of v c1] show ?thesis by (simp add: bind_def)
  next
    case (Raise e)
    with mc assms(1) show ?thesis by (simp add: bind_def)
  qed
qed

lemma lift_Return: "lift x c = (Return v, c1) \<Longrightarrow> x = Inr v \<and> c1 = c"
  by (cases x) (simp_all add: lift_def)

lemma benign_lift: "(\<And>e. x = Inl e \<Longrightarrow> e = KeyError) \<Longrightarrow> benign (fst (lift x c))"
  by (cases x) (simp_all add: lift_def)

lemma rooms_getitem_benign: "hashable key \<Longrightarrow> benign (fst (rooms_getitem key c))"
  by (auto simp: hashable_def rooms_getitem_def split: sum.splits option.splits)

lemma mkroom_benign: "hashable rid \<Longrightarrow> benign (fst (mkroom rid c))"
  by (auto simp: hashable_def mkroom_def Let_def rooms_getitem_def split: sum.splits option.splits)

lemma room_chunks_benign:
  assumes "partial_room room_desc" and "room_chunks room_desc = Inl e"
  shows "e = KeyError"
proof (cases "py_getitem room_desc ''messages''")
  case (Inl e')
  with assms show ?thesis by (auto simp: room_chunks_def partial_room_def dest: dict_getitem)
next
  case m: (Inr messages)
  with assms have pm: "partial_messages messages" by (simp add: partial_room_def absent_or_def)
  show ?thesis
  proof (cases "py_getitem messages ''chunk''")
    case (Inl e')
    with assms m pm show ?thesis
      by (auto simp: room_chunks_def partial_messages_def dest: dict_getitem)
  next
    case (Inr ch)
    with pm have "list_of (\<lambda>chunk. True) ch" by (simp add: partial_messages_def absent_or_def)
    then obtain xs where "ch = JList xs" by (cases ch) (simp_all add: list_of_def)
    with assms m Inr show ?thesis by (simp add: room_chunks_def)
  qed
qed

lemma room_state_benign:
  assumes "partial_room room_desc" and "room_state room_desc = Inl e"
  shows "e = KeyError"
proof (cases "py_getitem room_desc ''state''")
  case (Inl e')
  with assms show ?thesis by (auto simp: room_state_def partial_room_def dest: dict_getitem)
next
  case (Inr st)
  with assms have "list_of partial_state_event st" by (simp add: partial_room_def absent_or_def)
  then obtain xs where "st = JList xs" by (cases st) (simp_all add: list_of_def)
  with assms Inr show ?thesis by (simp add: room_state_def)
qed

lemma room_state_events:
  assumes "partial_room room_desc" and "room_state room_desc = Inr evs"
  shows "list_all partial_state_event evs"
proof (cases "py_getitem room_desc ''state''")
  case (Inl e')
  with assms show ?thesis by (simp add: room_state_def)
next
  case (Inr st)
  with assms have l: "list_of partial_state_event st" by (simp add: partial_room_def absent_or_def)
  then obtain xs where "st = JList xs" by (cases st) (simp_all add: list_of_def)
  with assms Inr l show ?thesis by (simp add: room_state_def list_of_def)
qed

lemma room_id_hashable:
  "partial_room room_desc \<Longrightarrow> py_getitem room_desc ''room_id'' = Inr rid \<Longrightarrow> hashable rid"
  by (simp add: partial_room_def absent_or_def)

lemma sync_room_benign:
  assumes p: "partial_room room_desc"
  shows "benign (fst (sync_room room_desc c))"
proof -
  from p have d: "is_dict room_desc" by (simp add: partial_room_def)
  show ?thesis
    unfolding sync_room_def
  proof (intro benign_bind benign_lift)
    fix e assume "py_getitem room_desc ''room_id'' = Inl e"
    with d show "e = KeyError" by (rule dict_getitem)
  next
    fix v c1 assume "lift (py_getitem room_desc ''room_id'') c = (Return v, c1)"
    then have "py_getitem room_desc ''room_id'' = Inr v" by (simp add: lift_Return)
    with p have "hashable v" by (rule room_id_hashable)
    then show "benign (fst (mkroom v c1))" by (rule mkroom_benign)
  next
    fix e assume "py_getitem room_desc ''room_id'' = Inl e"
    with d show "e = KeyError" by (rule dict_getitem)
  next
    fix v :: json and c1 c2 :: client
    assume "lift (py_getitem room_desc ''room_id'') c2 = (Return v, c1)"
    then have "py_getitem room_desc ''room_id'' = Inr v" by (simp add: lift_Return)
    with p have "hashable v" by (rule room_id_hashable)
    then show "benign (fst (rooms_getitem v c1))" by (rule rooms_getitem_benign)
  next
    fix e assume "room_chunks room_desc = Inl e"
    with p show "e = KeyError" by (rule room_chunks_benign)
  next
    fix c1 :: client and a :: nat
    show "benign (fst (Return (), update_room a (append_chunks chunks) c1))" for chunks
      by simp
  next
    fix e assume "room_state room_desc = Inl e"
    with p show "e = KeyError" by (rule room_state_benign)
  next
    fix v c1 c2 and a :: nat
    assume "lift (room_state room_desc) c2 = (Return v, c1)"
    then have "room_state room_desc = Inr v" by (simp add: lift_Return)
    with p have "list_all partial_state_event v" by (rule room_state_events)
    then show "benign (fst (fst (process_state_events v (heap c1 ! a)),
        update_room a (\<lambda>r. snd (process_state_events v r)) c1))"
      by (simp add: process_state_events_benign)
  qed
qed


lemma sync_rooms_benign:
  "list_all partial_room rs \<Longrightarrow> benign (fst (sync_rooms rs c))"
proof (induction rs arbitrary: c)
  case Nil
  show ?case by simp
next
  case (Cons room_desc rs)
  obtain out c1 where p: "sync_room room_desc c = (out, c1)" by (cases "sync_room room_desc c")
  from Cons.prems have "partial_room room_desc" by simp
  from sync_room_benign [OF this, of c] p have b: "benign out" by simp
  from Cons.prems have "list_all partial_room rs" by simp
  from Cons.IH [OF this, of c1] p b show ?case by (cases out) simp_all
qed

lemma response_rooms:
  assumes "partial_response response" and "py_getitem response ''rooms'' = Inr rs"
  shows "\<exists>xs. rs = JList xs \<and> list_all partial_room xs"
proof -
  from assms have "list_of partial_room rs" by (simp add: partial_response_def absent_or_def)
  then show ?thesis by (cases rs) (simp_all add: list_of_def)
qed

lemma sync_body_benign:
  assumes p: "partial_response response"
  shows "benign (fst (sync_body response c))"
proof -
  from p have d: "is_dict response" by (simp add: partial_response_def)
  show ?thesis
    unfolding sync_body_def
  proof (intro benign_bind benign_lift)
    fix e assume "py_getitem response ''end'' = Inl e"
    with d show "e = KeyError" by (rule dict_getitem)
  next
    fix v and c1 :: client
    show "benign (fst (Return (), c1\<lparr>end_token := Some v\<rparr>))" by simp
  next
    fix e assume "py_getitem response ''rooms'' = Inl e"
    with d show "e = KeyError" by (rule dict_getitem)
  next
    fix v c1 c2 e
    assume "lift (py_getitem response ''rooms'') c2 = (Return v, c1)" and i: "py_iter v = Inl e"
    then have "py_getitem response ''rooms'' = Inr v" by (simp add: lift_Return)
    from response_rooms [OF p this] i show "e = KeyError" by auto
  next
    fix v w c1 c2 c3
    assume "lift (py_getitem response ''rooms'') c2 = (Return v, c1)"
      and i: "lift (py_iter v) c1 = (Return w, c3)"
    then have "py_getitem response ''rooms'' = Inr v" by (simp add: lift_Return)
    from response_rooms [OF p this] obtain xs where x: "v = JList xs" "list_all partial_room xs"
      by blast
    from i x have "w = xs" by (simp add: lift_def)
    with x show "benign (fst (sync_rooms w c3))" by (simp add: sync_rooms_benign)
  qed
qed

lemma keeps_end_sync_room: "keeps end_token (sync_room room_desc)"
  unfolding sync_room_def
  by (intro keeps_bind keeps_lift keeps_rooms_getitem keeps_end_mkroom keepsI)
    (simp_all add: update_room_def)

lemma end_sync_rooms: "end_token (snd (sync_rooms rs c)) = end_token c"
proof (induction rs arbitrary: c)
  case Nil
  show ?case by simp
next
  case (Cons room_desc rs)
  obtain r c1 where d: "sync_room room_desc c = (r, c1)" by (cases "sync_room room_desc c")
  with keeps_end_sync_room [of room_desc] have e: "end_token c1 = end_token c"
    by (auto simp: keeps_def dest: spec [of _ c])
  show ?case using d e Cons.IH [of c1] by (cases r) simp_all
qed

lemma sync_body_end:
  assumes "py_getitem response ''end'' = Inr v"
  shows "end_token (snd (sync_body response c)) = Some v"
proof -
  let ?rest = "bind (lift (py_getitem response ''rooms''))
                 (\<lambda>rs. bind (lift (py_iter rs)) sync_rooms)"
  have "sync_body response c = ?rest (c\<lparr>end_token := Some v\<rparr>)"
    using assms by (simp add: sync_body_def bind_def lift_def)
  moreover have "keeps end_token ?rest"
    by (intro keeps_bind keeps_lift keepsI end_sync_rooms)
  ultimately show ?thesis by (simp add: keeps_def)
qed

lemma sync_after_reply:
  assumes "transport env (trace c) (InitialSync limit) = Inr response"
    and "sync_body response (log_action (ApiCall (InitialSync limit)) c) = (out, c')"
    and "benign out"
  shows "sync env limit c = (Return (), c')"
proof (cases out)
  case (Return u)
  with assms show ?thesis by (simp add: sync_def bind_def api_def lift_def)
next
  case (Raise e)
  with assms have "e = KeyError" by simp
  with Raise assms show ?thesis by (simp add: sync_def bind_def api_def lift_def)
qed

text \<open>
  C3, as amended. For every initial-sync response of the expected shape in which any of
  the expected keys is missing, \<^verbatim>\<open>_sync\<close> returns normally, and the client is left in the
  state that the statements of the \<^verbatim>\<open>try\<close> block had reached when they stopped: every
  update made before the missing key was met is retained, the cursor among them when the
  response carries \<^verbatim>\<open>end\<close>. The poll is not part of the statement:
  \<^verbatim>\<open>listen_for_events\<close> has no handler for a missing key.
\<close>

theorem sync_swallows_missing_keys:
  assumes "transport env (trace c) (InitialSync limit) = Inr response"
    and "partial_response response"
  shows "fst (sync env limit c) = Return ()
         \<and> snd (sync env limit c) =
             snd (sync_body response (log_action (ApiCall (InitialSync limit)) c))
         \<and> (py_getitem response ''end'' = Inr v \<longrightarrow>
              end_token (snd (sync env limit c)) = Some v)"
proof -
  let ?c0 = "log_action (ApiCall (InitialSync limit)) c"
  obtain out c' where b: "sync_body response ?c0 = (out, c')"
    by (cases "sync_body response ?c0")
  from sync_body_benign [OF assms(2), of ?c0] b have "benign out" by simp
  from sync_after_reply [OF assms(1) b this] have s: "sync env limit c = (Return (), c')" .
  show ?thesis using s b sync_body_end [of response v ?c0] by simp
qed

theorem sync_swallows_missing_keys_witness:
  "transport (reply_env (Inr partial_sync_response)) (trace MatrixClient_init) (InitialSync 1) =
     Inr partial_sync_response
   \<and> partial_response partial_sync_response
   \<and> py_getitem partial_sync_response ''end'' = Inr (JStr ''tok1'')
   \<and> sync_body partial_sync_response (log_action (ApiCall (InitialSync 1)) MatrixClient_init) =
       (Raise KeyError,
        \<lparr>listeners = [], rooms = [(JStr ''!a:x'', 0), (JStr ''!b:x'', 1)],
         end_token = Some (JStr ''tok1''),
         heap = [(Room_init (JStr ''!a:x''))
                   \<lparr>events := [JObj [(''type'', JStr ''m.room.message''), (''body'', JStr ''hi'')]],
                    name := JStr ''Lobby''\<rparr>,
                 Room_init (JStr ''!b:x'')],
         trace = [ApiCall (InitialSync 1)]\<rparr>)
   \<and> sync (reply_env (Inr partial_sync_response)) 1 MatrixClient_init =
       (Return (),
        \<lparr>listeners = [], rooms = [(JStr ''!a:x'', 0), (JStr ''!b:x'', 1)],
         end_token = Some (JStr ''tok1''),
         heap = [(Room_init (JStr ''!a:x''))
                   \<lparr>events := [JObj [(''type'', JStr ''m.room.message''), (''body'', JStr ''hi'')]],
                    name := JStr ''Lobby''\<rparr>,
                 Room_init (JStr ''!b:x'')],
         trace = [ApiCall (InitialSync 1)]\<rparr>)"
  using sync_swallows_missing_keys
    [of "reply_env (Inr partial_sync_response)" MatrixClient_init 1 partial_sync_response
        "JStr ''tok1''"]
  by (simp add: partial_sync_response_def reply_env_def MatrixClient_init_def name_event_def
      partial_response_def partial_room_def partial_messages_def partial_state_event_def
      is_dict_def absent_or_def list_of_def hashable_def
      sync_def sync_body_def sync_room_def bind_def lift_def api_def log_action_def mkroom_def
      rooms_getitem_def room_chunks_def room_state_def update_room_def process_state_event_def
      content_field_def Room_init_def)

text \<open>
  C3 as stated fails for the poll: on the example client, a response of the event stream
  without \<^verbatim>\<open>end\<close>, and one without \<^verbatim>\<open>chunk\<close>, make \<^verbatim>\<open>listen_for_events\<close> raise
  KeyError.
\<close>

theorem poll_missing_key_raises:
  "fst (listen_for_events (reply_env (Inr (JObj [(''chunk'', JList [])]))) 30000 example_client) =
     Raise KeyError
   \<and> fst (listen_for_events (reply_env (Inr (JObj [(''end'', JStr ''tok2'')]))) 30000
        example_client) = Raise KeyError"
  by (simp add: listen_for_events_def bind_def get_end_def api_def lift_def reply_env_def
      example_client_def log_action_def)

section \<open>The order of the fan-out\<close>

lemma bind_Return:
  assumes "bind m f c = (Return v, c')"
  obtains u c1 where "m c = (Return u, c1)" and "f u c1 = (Return v, c')"
proof -
  obtain out c1 where mc: "m c = (out, c1)" by (cases "m c")
  show ?thesis
  proof (cases out)
    case (Return u)
    with mc assms have "f u c1 = (Return v, c')" by (simp add: bind_def)
    with mc Return that show ?thesis by blast
  next
    case (Raise e)
    with mc assms show ?thesis by (simp add: bind_def)
  qed
qed

lemma run_listeners_Return:
  "run_listeners env ls chunk c = (Return u, c') \<Longrightarrow>
   c' = c\<lparr>trace := trace c @ map (\<lambda>l. Invoked l chunk) ls\<rparr>"
proof (induction ls arbitrary: c)
  case Nil
  then show ?case by simp
next
  case (Cons l ls)
  from Cons.prems have n: "callback env (trace c) l chunk = None"
    by (cases "callback env (trace c) l chunk") simp_all
  with Cons.prems have "run_listeners env ls chunk (log_action (Invoked l chunk) c) = (Return u, c')"
    by simp
  from Cons.IH [OF this] show ?case by (simp add: log_action_def)
qed

lemma rooms_contains_Return:
  assumes "rooms_contains rid c = (Return b, c1)"
  obtains k where "py_hash rid = Inr k" and "c1 = c" and "b = (map_of (rooms c) k \<noteq> None)"
  using assms by (auto simp: rooms_contains_def split: sum.splits option.splits)

lemma rooms_getitem_Return:
  assumes "rooms_getitem rid c = (Return a, c1)"
  obtains k where "py_hash rid = Inr k" and "c1 = c" and "map_of (rooms c) k = Some a"
  using assms by (auto simp: rooms_getitem_def split: sum.splits option.splits)

lemma mkroom_Return:
  assumes "mkroom rid c = (Return a, c1)"
  obtains k where "py_hash rid = Inr k"
    and "c1 = c\<lparr>heap := heap c @ [Room_init rid],
                 rooms := AList.update k (length (heap c)) (rooms c)\<rparr>"
  using assms
  by (auto simp: mkroom_def Let_def rooms_getitem_def split: sum.splits option.splits)

lemma contains_False_getitem: "py_contains k j = Inr False \<Longrightarrow> \<exists>e. py_getitem j k = Inl e"
  using getitem_contains [of j k] by (cases "py_getitem j k") auto

lemma registry_ok_address:
  "registry_ok c \<Longrightarrow> map_of (rooms c) k = Some a \<Longrightarrow> a < length (heap c)"
proof -
  assume ok: "registry_ok c" and m: "map_of (rooms c) k = Some a"
  from m have "(k, a) \<in> set (rooms c)" by (rule map_of_SomeD)
  with ok show ?thesis by (auto simp: registry_ok_def list_all_iff)
qed

lemma same_view_refl: "registry_ok c \<Longrightarrow> same_view c c"
  by (simp add: same_view_def)

lemma same_view_trans: "same_view a b \<Longrightarrow> same_view b c \<Longrightarrow> same_view a c"
  by (simp add: same_view_def)

lemma same_view_step:
  assumes r: "registry_ok c1"
    and l: "listeners c2 = listeners c1" and m: "rooms c2 = rooms c1"
    and h: "map room_listeners (heap c2) = map room_listeners (heap c1)"
  shows "same_view c1 c2"
proof -
  from h have len: "length (heap c2) = length (heap c1)" by (rule map_eq_imp_length_eq)
  have nth: "room_listeners (heap c2 ! a) = room_listeners (heap c1 ! a)"
    if "a < length (heap c1)" for a
    using that len h by (metis nth_map)
  have "listeners_of_room c2 rid = listeners_of_room c1 rid" for rid
  proof (cases "py_hash rid")
    case (Inl e)
    then show ?thesis by (simp add: listeners_of_room_def)
  next
    case (Inr k)
    show ?thesis
    proof (cases "map_of (rooms c1) k")
      case None
      with Inr m show ?thesis by (simp add: listeners_of_room_def)
    next
      case (Some a)
      from registry_ok_address [OF r Some] have "a < length (heap c1)" .
      with Inr Some m nth show ?thesis by (simp add: listeners_of_room_def)
    qed
  qed
  moreover from r m len have "registry_ok c2" by (simp add: registry_ok_def)
  ultimately show ?thesis using l by (simp add: same_view_def)
qed

lemma map_listeners_update:
  assumes "\<And>r. room_listeners (f r) = room_listeners r"
  shows "map room_listeners (xs[a := f (xs ! a)]) = map room_listeners xs"
proof (cases "a < length xs")
  case True
  then show ?thesis using assms by (simp add: map_update list_update_same_conv)
next
  case False
  then show ?thesis by (simp add: list_update_beyond)
qed

lemma same_view_append_event:
  assumes "registry_ok c"
  shows "same_view c (log_action act (update_room a (\<lambda>r. r\<lparr>events := events r @ [chunk]\<rparr>) c))"
  using assms
  by (intro same_view_step) (simp_all add: log_action_def update_room_def map_listeners_update)

lemma alist_update_fresh:
  "map_of al k = None \<Longrightarrow> AList.update k v al = al @ [(k, v)]"
  by (induction al) (auto split: if_splits)

lemma same_view_mkroom:
  assumes r: "registry_ok c" and n: "map_of (rooms c) k = None"
    and c1: "c1 = c\<lparr>heap := heap c @ [Room_init rid],
                   rooms := AList.update k (length (heap c)) (rooms c)\<rparr>"
  shows "same_view c c1"
proof -
  have rooms1: "rooms c1 = rooms c @ [(k, length (heap c))]"
    using c1 n by (simp add: alist_update_fresh)
  have ok: "registry_ok c1"
    using r c1 rooms1 by (auto simp: registry_ok_def list_all_iff)
  have "listeners_of_room c1 rid' = listeners_of_room c rid'" for rid'
  proof (cases "py_hash rid'")
    case (Inl e)
    then show ?thesis by (simp add: listeners_of_room_def)
  next
    case (Inr k')
    show ?thesis
    proof (cases "k' = k")
      case True
      with Inr n c1 show ?thesis
        by (simp add: listeners_of_room_def update_conv' Room_init_def)
    next
      case False
      show ?thesis
      proof (cases "map_of (rooms c) k'")
        case None
        with Inr False c1 show ?thesis by (simp add: listeners_of_room_def update_conv')
      next
        case (Some a)
        from registry_ok_address [OF r Some] have "a < length (heap c)" .
        with Inr False Some c1 show ?thesis
          by (simp add: listeners_of_room_def update_conv' nth_append)
      qed
    qed
  qed
  with ok c1 show ?thesis by (simp add: same_view_def)
qed

lemma chunk_actions_view: "same_view c c1 \<Longrightarrow> chunk_actions c1 chunk = chunk_actions c chunk"
  by (auto simp: same_view_def chunk_actions_def split: sum.splits)


lemma same_view_registry_ok: "same_view c c1 \<Longrightarrow> registry_ok c1"
  by (simp add: same_view_def)

lemma ensure_room_Return:
  assumes ok: "registry_ok c" and e: "ensure_room chunk c = (Return u, c1)"
  shows "same_view c c1 \<and> trace c1 = trace c"
proof -
  from e obtain rid x where l: "lift (py_getitem chunk ''room_id'') c = (Return rid, x)"
    and r: "bind (rooms_contains rid) (\<lambda>known.
       if known then (\<lambda>c. (Return (), c))
       else bind (lift (py_getitem chunk ''room_id'')) (\<lambda>rid'.
            bind (mkroom rid') (\<lambda>made c. (Return (), c)))) x = (Return u, c1)"
    unfolding ensure_room_def by (rule bind_Return)
  from lift_Return [OF l] have gi: "py_getitem chunk ''room_id'' = Inr rid" and "x = c"
    by simp_all
  note r = r [unfolded \<open>x = c\<close>]
  from r obtain known y where rc: "rooms_contains rid c = (Return known, y)"
    and m: "(if known then (\<lambda>c. (Return (), c))
       else bind (lift (py_getitem chunk ''room_id'')) (\<lambda>rid'.
            bind (mkroom rid') (\<lambda>made c. (Return (), c)))) y = (Return u, c1)"
    by (rule bind_Return)
  from rc obtain k where k: "py_hash rid = Inr k" and "y = c"
    and kn: "known = (map_of (rooms c) k \<noteq> None)"
    by (rule rooms_contains_Return)
  note m = m [unfolded \<open>y = c\<close>]
  show ?thesis
  proof (cases known)
    case True
    with m have "c1 = c" by simp
    with ok show ?thesis by (simp add: same_view_refl)
  next
    case False
    with m gi have "bind (mkroom rid) (\<lambda>made c. (Return (), c)) c = (Return u, c1)"
      by (simp add: bind_def lift_def)
    then obtain made z where mk: "mkroom rid c = (Return made, z)"
      and "(Return (), z) = (Return u, c1)"
      by (rule bind_Return)
    then have "z = c1" by simp
    from mk obtain k' where "py_hash rid = Inr k'"
      and "z = c\<lparr>heap := heap c @ [Room_init rid],
                  rooms := AList.update k' (length (heap c)) (rooms c)\<rparr>"
      by (rule mkroom_Return)
    with k \<open>z = c1\<close> have c1: "c1 = c\<lparr>heap := heap c @ [Room_init rid],
                  rooms := AList.update k (length (heap c)) (rooms c)\<rparr>"
      by simp
    from False kn have "map_of (rooms c) k = None" by simp
    from same_view_mkroom [OF ok this c1] c1 show ?thesis by simp
  qed
qed

lemma append_event_Return:
  assumes ok: "registry_ok c" and e: "append_event chunk c = (Return u, c1)"
  shows "\<exists>rid. py_getitem chunk ''room_id'' = Inr rid \<and> same_view c c1 \<and>
           trace c1 = trace c @ [Appended rid chunk]"
proof -
  from e obtain rid x where l: "lift (py_getitem chunk ''room_id'') c = (Return rid, x)"
    and r: "bind (rooms_getitem rid) (\<lambda>a c.
       (Return (),
        log_action (Appended rid chunk)
          (update_room a (\<lambda>r. r\<lparr>events := events r @ [chunk]\<rparr>) c))) x = (Return u, c1)"
    unfolding append_event_def by (rule bind_Return)
  from lift_Return [OF l] have gi: "py_getitem chunk ''room_id'' = Inr rid" and "x = c"
    by simp_all
  note r = r [unfolded \<open>x = c\<close>]
  from r obtain a y where ga: "rooms_getitem rid c = (Return a, y)"
    and c1: "(Return (), log_action (Appended rid chunk)
          (update_room a (\<lambda>r. r\<lparr>events := events r @ [chunk]\<rparr>) y)) = (Return u, c1)"
    by (rule bind_Return)
  from ga have "y = c" by (auto elim: rooms_getitem_Return)
  with c1 have c1': "c1 = log_action (Appended rid chunk)
          (update_room a (\<lambda>r. r\<lparr>events := events r @ [chunk]\<rparr>) c)"
    by simp
  have "same_view c c1" unfolding c1' using ok by (rule same_view_append_event)
  moreover have "trace c1 = trace c @ [Appended rid chunk]"
    by (simp add: c1' log_action_def update_room_def)
  ultimately show ?thesis using gi by blast
qed

lemma room_fan_out_Return:
  assumes e: "room_fan_out env chunk c = (Return u, c1)"
  shows "\<exists>rid. py_getitem chunk ''room_id'' = Inr rid \<and>
           c1 = c\<lparr>trace := trace c @ map (\<lambda>l. Invoked l chunk) (listeners_of_room c rid)\<rparr>"
proof -
  from e obtain rid x where l: "lift (py_getitem chunk ''room_id'') c = (Return rid, x)"
    and r: "bind (rooms_getitem rid) (\<lambda>a c.
       run_listeners env (room_listeners (heap c ! a)) chunk c) x = (Return u, c1)"
    unfolding room_fan_out_def by (rule bind_Return)
  from lift_Return [OF l] have gi: "py_getitem chunk ''room_id'' = Inr rid" and "x = c"
    by simp_all
  note r = r [unfolded \<open>x = c\<close>]
  from r obtain a y where ga: "rooms_getitem rid c = (Return a, y)"
    and run: "run_listeners env (room_listeners (heap y ! a)) chunk y = (Return u, c1)"
    by (rule bind_Return)
  from ga obtain k where k: "py_hash rid = Inr k" and "y = c"
    and ma: "map_of (rooms c) k = Some a"
    by (rule rooms_getitem_Return)
  from k ma have "room_listeners (heap c ! a) = listeners_of_room c rid"
    by (simp add: listeners_of_room_def)
  with run_listeners_Return [OF run [unfolded \<open>y = c\<close>]] gi show ?thesis by auto
qed

lemma dispatch_chunk_Return:
  assumes ok: "registry_ok c" and d: "dispatch_chunk env chunk c = (Return u, c')"
  shows "trace c' = trace c @ chunk_actions c chunk \<and> same_view c c'"
proof -
  let ?inv = "\<lambda>ls. map (\<lambda>l. Invoked l chunk) ls"
  from d obtain u1 c1 where
    g: "run_listeners env (listeners c) chunk c = (Return u1, c1)" and
    d1: "bind (lift (py_contains ''room_id'' chunk)) (\<lambda>has_room.
       if has_room then
         bind (ensure_room chunk) (\<lambda>u.
         bind (append_event chunk) (\<lambda>u.
         room_fan_out env chunk))
       else (\<lambda>c. (Return (), c))) c1 = (Return u, c')"
    unfolding dispatch_chunk_def by (rule bind_Return)
  from run_listeners_Return [OF g]
  have c1: "c1 = c\<lparr>trace := trace c @ ?inv (listeners c)\<rparr>" .
  have v1: "same_view c c1"
    using ok c1 by (intro same_view_step) simp_all
  from d1 obtain has_room x where
    l: "lift (py_contains ''room_id'' chunk) c1 = (Return has_room, x)" and
    d2: "(if has_room then
         bind (ensure_room chunk) (\<lambda>u.
         bind (append_event chunk) (\<lambda>u.
         room_fan_out env chunk))
       else (\<lambda>c. (Return (), c))) x = (Return u, c')"
    by (rule bind_Return)
  from lift_Return [OF l] have hr: "py_contains ''room_id'' chunk = Inr has_room" and "x = c1"
    by simp_all
  note d2 = d2 [unfolded \<open>x = c1\<close>]
  show ?thesis
  proof (cases has_room)
    case False
    with d2 have "c' = c1" by simp
    moreover from hr False have "py_contains ''room_id'' chunk = Inr False" by simp
    from contains_False_getitem [OF this] obtain e
      where "py_getitem chunk ''room_id'' = Inl e" by blast
    ultimately show ?thesis using c1 v1 by (simp add: chunk_actions_def)
  next
    case True
    with d2 have "bind (ensure_room chunk) (\<lambda>u.
         bind (append_event chunk) (\<lambda>u. room_fan_out env chunk)) c1 = (Return u, c')"
      by simp
    then obtain u2 c2 where en: "ensure_room chunk c1 = (Return u2, c2)"
      and d3: "bind (append_event chunk) (\<lambda>u. room_fan_out env chunk) c2 = (Return u, c')"
      by (rule bind_Return)
    from d3 obtain u3 c3 where ap: "append_event chunk c2 = (Return u3, c3)"
      and fo: "room_fan_out env chunk c3 = (Return u, c')"
      by (rule bind_Return)
    from ensure_room_Return [OF same_view_registry_ok [OF v1] en]
    have v2: "same_view c1 c2" and t2: "trace c2 = trace c1" by simp_all
    from append_event_Return [OF same_view_registry_ok [OF v2] ap]
    obtain rid where gi: "py_getitem chunk ''room_id'' = Inr rid"
      and v3: "same_view c2 c3" and t3: "trace c3 = trace c2 @ [Appended rid chunk]"
      by blast
    have v: "same_view c c3"
      using v1 v2 v3 by (blast intro: same_view_trans)
    from room_fan_out_Return [OF fo] gi
    have c': "c' = c3\<lparr>trace := trace c3 @ ?inv (listeners_of_room c3 rid)\<rparr>" by auto
    from v have rl: "listeners_of_room c3 rid = listeners_of_room c rid"
      by (simp add: same_view_def)
    have tr: "trace c' = trace c @ chunk_actions c chunk"
      using c' rl t3 t2 c1 gi by (simp add: chunk_actions_def)
    have "same_view c3 c'"
      using same_view_registry_ok [OF v] c' by (intro same_view_step) simp_all
    with v have "same_view c c'" by (rule same_view_trans)
    with tr show ?thesis by simp
  qed
qed

lemma dispatch_chunks_Return:
  "registry_ok c \<Longrightarrow> dispatch_chunks env chunks c = (Return u, c') \<Longrightarrow>
   trace c' = trace c @ concat (map (chunk_actions c) chunks) \<and> same_view c c'"
proof (induction chunks arbitrary: c)
  case Nil
  then show ?case by (simp add: same_view_refl)
next
  case (Cons chunk rest)
  obtain out c1 where d: "dispatch_chunk env chunk c = (out, c1)"
    by (cases "dispatch_chunk env chunk c")
  with Cons.prems(2) obtain u1 where out: "out = Return u1" by (cases out) simp_all
  from dispatch_chunk_Return [OF Cons.prems(1) d [unfolded out]]
  have t1: "trace c1 = trace c @ chunk_actions c chunk" and v1: "same_view c c1" by simp_all
  from Cons.prems(2) d out have r: "dispatch_chunks env rest c1 = (Return u, c')" by simp
  from Cons.IH [OF same_view_registry_ok [OF v1] r]
  have t2: "trace c' = trace c1 @ concat (map (chunk_actions c1) rest)"
    and v2: "same_view c1 c'" by simp_all
  have "chunk_actions c1 = chunk_actions c"
    by (rule ext) (rule chunk_actions_view [OF v1])
  with t1 t2 have "trace c' = trace c @ concat (map (chunk_actions c) (chunk # rest))" by simp
  moreover from v1 v2 have "same_view c c'" by (rule same_view_trans)
  ultimately show ?case by simp
qed

text \<open>
  C6. A call of \<^verbatim>\<open>listen_for_events\<close> that returns normally shows, after the call on the
  transport, the actions of the chunks one chunk after the other in the order of the
  response; for each chunk, all global callbacks in registration order; then, when the
  chunk carries \<^verbatim>\<open>room_id\<close>, the append of the chunk to the event log of its room, and
  only then the callbacks of that room, in registration order.
\<close>

theorem fan_out_order:
  assumes "registry_ok c"
    and "end_token c = Some cursor"
    and "transport env (trace c) (EventStream cursor timeout) = Inr response"
    and "py_getitem response ''chunk'' = Inr ch"
    and "py_iter ch = Inr chunks"
    and "listen_for_events env timeout c = (Return (), c')"
  shows "trace c' =
           trace c @ ApiCall (EventStream cursor timeout) # concat (map (chunk_actions c) chunks)"
proof -
  let ?c0 = "log_action (ApiCall (EventStream cursor timeout)) c"
  from assms(6) obtain v where e: "py_getitem response ''end'' = Inr v"
    using assms(2,3)
    by (cases "py_getitem response ''end''")
      (simp_all add: listen_for_events_def bind_def get_end_def api_def lift_def)
  let ?c1 = "?c0\<lparr>end_token := Some v\<rparr>"
  have d: "dispatch_chunks env chunks ?c1 = (Return (), c')"
    using assms(2-6) e by (simp add: listen_for_events_def bind_def get_end_def api_def lift_def)
  have v1: "same_view c ?c1"
    using assms(1) by (intro same_view_step) (simp_all add: log_action_def)
  from dispatch_chunks_Return [OF same_view_registry_ok [OF v1] d]
  have t: "trace c' = trace ?c1 @ concat (map (chunk_actions ?c1) chunks)" by simp
  have ca: "chunk_actions ?c1 = chunk_actions c"
    by (rule ext) (rule chunk_actions_view [OF v1])
  from t [unfolded ca] show ?thesis by (simp add: log_action_def)
qed

theorem fan_out_order_witness:
  "registry_ok example_client
   \<and> end_token example_client = Some (JStr ''tok1'')
   \<and> transport (reply_env (Inr two_chunks)) (trace example_client)
       (EventStream (JStr ''tok1'') 30000) = Inr two_chunks
   \<and> fst (listen_for_events (reply_env (Inr two_chunks)) 30000 example_client) = Return ()
   \<and> trace (snd (listen_for_events (reply_env (Inr two_chunks)) 30000 example_client)) =
       [ApiCall (EventStream (JStr ''tok1'') 30000),
        Invoked 1 message_chunk, Invoked 2 message_chunk,
        Appended (JStr ''!a:x'') message_chunk, Invoked 7 message_chunk,
        Invoked 1 (JObj [(''type'', JStr ''m.presence'')]),
        Invoked 2 (JObj [(''type'', JStr ''m.presence'')]),
        Invoked 1 (JObj [(''type'', JStr ''m.room.message''), (''room_id'', JStr ''!b:x'')]),
        Invoked 2 (JObj [(''type'', JStr ''m.room.message''), (''room_id'', JStr ''!b:x'')]),
        Appended (JStr ''!b:x'')
          (JObj [(''type'', JStr ''m.room.message''), (''room_id'', JStr ''!b:x'')])]
   \<and> events (heap (snd (listen_for_events (reply_env (Inr two_chunks)) 30000 example_client)) ! 0) =
       [JObj [(''type'', JStr ''m.room.message''), (''body'', JStr ''hi'')], message_chunk]
   \<and> rooms (snd (listen_for_events (reply_env (Inr two_chunks)) 30000 example_client)) =
       [(JStr ''!a:x'', 0), (JStr ''!b:x'', 1)]
   \<and> events (heap (snd (listen_for_events (reply_env (Inr two_chunks)) 30000 example_client)) ! 1) =
       [JObj [(''type'', JStr ''m.room.message''), (''room_id'', JStr ''!b:x'')]]"
proof -
  have ev: "events (heap (snd (listen_for_events (reply_env (Inr two_chunks)) 30000
        example_client)) ! 0) =
       [JObj [(''type'', JStr ''m.room.message''), (''body'', JStr ''hi'')], message_chunk]
   \<and> rooms (snd (listen_for_events (reply_env (Inr two_chunks)) 30000 example_client)) =
       [(JStr ''!a:x'', 0), (JStr ''!b:x'', 1)]
   \<and> events (heap (snd (listen_for_events (reply_env (Inr two_chunks)) 30000 example_client)) ! 1) =
       [JObj [(''type'', JStr ''m.room.message''), (''room_id'', JStr ''!b:x'')]]"
    by (simp add: listen_for_events_def dispatch_chunk_def ensure_room_def append_event_def
        room_fan_out_def bind_def get_end_def api_def lift_def
        reply_env_def example_client_def example_room_def two_chunks_def message_chunk_def
        log_action_def rooms_contains_def rooms_getitem_def mkroom_def update_room_def
        Room_init_def)
  have r: "listen_for_events (reply_env (Inr two_chunks)) 30000 example_client =
      (Return (), snd (listen_for_events (reply_env (Inr two_chunks)) 30000 example_client))"
    by (simp add: listen_for_events_def dispatch_chunk_def ensure_room_def append_event_def
        room_fan_out_def bind_def get_end_def api_def lift_def
        reply_env_def example_client_def example_room_def two_chunks_def message_chunk_def
        log_action_def rooms_contains_def rooms_getitem_def mkroom_def update_room_def
        Room_init_def)
  from r have f: "fst (listen_for_events (reply_env (Inr two_chunks)) 30000 example_client) =
      Return ()"
    by (metis fst_conv)
  show ?thesis
    using f ev fan_out_order
      [of example_client "JStr ''tok1''" "reply_env (Inr two_chunks)" 30000 two_chunks
          "JList [message_chunk, JObj [(''type'', JStr ''m.presence'')],
             JObj [(''type'', JStr ''m.room.message''), (''room_id'', JStr ''!b:x'')]]"
          "[message_chunk, JObj [(''type'', JStr ''m.presence'')],
             JObj [(''type'', JStr ''m.room.message''), (''room_id'', JStr ''!b:x'')]]",
          OF _ _ _ _ _ r]
    by (simp add: registry_ok_def chunk_actions_def listeners_of_room_def reply_env_def
        example_client_def example_room_def two_chunks_def message_chunk_def Room_init_def)
qed

section \<open>Callbacks that raise\<close>

lemma raised_simps [simp]: "raised (Return v) = None" "raised (Raise e) = Some e"
  by (simp_all add: raised_def)

lemma quiet_append:
  "quiet env t (a @ b) = (quiet env t a \<and> quiet env (t @ a) b)"
  by (induction a arbitrary: t) simp_all

lemma run_shape_quiet: "quiet env t app \<Longrightarrow> run_shape env t out (t @ app)"
  by (auto simp: run_shape_def)

lemma run_shape_raise:
  "quiet env t app \<Longrightarrow> callback env (t @ app) l chunk = Some e \<Longrightarrow>
   run_shape env t (Some e) (t @ app @ [Invoked l chunk])"
  by (auto simp: run_shape_def)

lemma run_shape_compose:
  assumes q: "quiet env t app1" and r: "run_shape env (t @ app1) out t'"
  shows "run_shape env t out t'"
proof -
  from r obtain app2 where t': "t' = (t @ app1) @ app2"
    and d: "quiet env (t @ app1) app2 \<or>
         (\<exists>app' l chunk e. app2 = app' @ [Invoked l chunk] \<and> quiet env (t @ app1) app' \<and>
            callback env ((t @ app1) @ app') l chunk = Some e \<and> out = Some e)"
    unfolding run_shape_def by blast
  from d show ?thesis
  proof
    assume "quiet env (t @ app1) app2"
    with q have "quiet env t (app1 @ app2)" by (simp add: quiet_append)
    from run_shape_quiet [OF this] t' show ?thesis by simp
  next
    assume "\<exists>app' l chunk e. app2 = app' @ [Invoked l chunk] \<and> quiet env (t @ app1) app' \<and>
            callback env ((t @ app1) @ app') l chunk = Some e \<and> out = Some e"
    then obtain app' l chunk e where a2: "app2 = app' @ [Invoked l chunk]"
      and q': "quiet env (t @ app1) app'"
      and cb: "callback env ((t @ app1) @ app') l chunk = Some e" and o: "out = Some e"
      by blast
    from q q' have "quiet env t (app1 @ app')" by (simp add: quiet_append)
    from run_shape_raise [OF this, of l chunk e] cb t' a2 o show ?thesis by simp
  qed
qed

lemma run_shape_Return:
  assumes "run_shape env t None t'"
  obtains app where "t' = t @ app" and "quiet env t app"
  using assms by (auto simp: run_shape_def)

lemma tracedI:
  "(\<And>c. run_shape env (trace c) (raised (fst (m c))) (trace (snd (m c)))) \<Longrightarrow> traced env m"
  by (simp add: traced_def)

lemma tracedD:
  "traced env m \<Longrightarrow> run_shape env (trace c) (raised (fst (m c))) (trace (snd (m c)))"
  by (simp add: traced_def)

lemma traced_keeps: "keeps trace m \<Longrightarrow> traced env m"
proof (rule tracedI)
  fix c :: client
  assume "keeps trace m"
  then have "trace (snd (m c)) = trace c @ []" by (simp add: keeps_def)
  moreover have "quiet env (trace c) []" by simp
  ultimately show "run_shape env (trace c) (raised (fst (m c))) (trace (snd (m c)))"
    by (metis run_shape_quiet)
qed

lemma traced_bind:
  assumes m: "traced env m" and f: "\<And>v. traced env (f v)"
  shows "traced env (bind m f)"
proof (rule tracedI)
  fix c :: client
  obtain out c1 where mc: "m c = (out, c1)" by (cases "m c")
  from tracedD [OF m, of c] mc
  have s1: "run_shape env (trace c) (raised out) (trace c1)" by simp
  show "run_shape env (trace c) (raised (fst (bind m f c))) (trace (snd (bind m f c)))"
  proof (cases out)
    case (Raise e)
    with mc s1 show ?thesis by (simp add: bind_def)
  next
    case (Return v)
    with s1 obtain app where t1: "trace c1 = trace c @ app" and q: "quiet env (trace c) app"
      by (auto elim: run_shape_Return)
    from tracedD [OF f [of v], of c1] t1
    have "run_shape env (trace c @ app) (raised (fst (f v c1))) (trace (snd (f v c1)))" by simp
    from run_shape_compose [OF q this] mc Return show ?thesis by (simp add: bind_def)
  qed
qed

lemma traced_if: "traced env m \<Longrightarrow> traced env n \<Longrightarrow> traced env (if b then m else n)"
  by simp

lemma traced_log:
  assumes "\<And>l chunk. a \<noteq> Invoked l chunk" and "\<And>c. trace (g c) = trace c"
  shows "traced env (\<lambda>c. (Return v, log_action a (g c)))"
proof (rule tracedI)
  fix c :: client
  from assms(1) have "quiet env (trace c) [a]" by (cases a) auto
  from run_shape_quiet [OF this] assms(2)
  show "run_shape env (trace c) (raised (fst (Return v, log_action a (g c))))
          (trace (snd (Return v, log_action a (g c))))"
    by (simp add: log_action_def)
qed

lemma traced_api: "traced env (api env' call)"
proof (rule tracedI)
  fix c :: client
  have "quiet env (trace c) [ApiCall call]" by simp
  from run_shape_quiet [OF this]
  show "run_shape env (trace c) (raised (fst (api env' call c))) (trace (snd (api env' call c)))"
    by (cases "transport env' (trace c) call") (simp_all add: api_def lift_def log_action_def)
qed

lemma run_listeners_shape:
  "run_shape env (trace c) (raised (fst (run_listeners env ls chunk c)))
     (trace (snd (run_listeners env ls chunk c)))"
proof (induction ls arbitrary: c)
  case Nil
  have "quiet env (trace c) []" by simp
  from run_shape_quiet [OF this] show ?case by simp
next
  case (Cons l ls)
  show ?case
  proof (cases "callback env (trace c) l chunk")
    case (Some e)
    have "quiet env (trace c) []" by simp
    from run_shape_raise [OF this, of l chunk e] Some show ?thesis by (simp add: log_action_def)
  next
    case None
    let ?c1 = "log_action (Invoked l chunk) c"
    from None have q: "quiet env (trace c) [Invoked l chunk]" by simp
    from Cons.IH [of ?c1]
    have "run_shape env (trace c @ [Invoked l chunk])
            (raised (fst (run_listeners env ls chunk ?c1)))
            (trace (snd (run_listeners env ls chunk ?c1)))"
      by (simp add: log_action_def)
    from run_shape_compose [OF q this] None show ?thesis by simp
  qed
qed

lemma keeps_trace_mkroom: "keeps trace (mkroom rid)"
  by (simp add: keeps_def mkroom_def rooms_getitem_def Let_def split: sum.splits option.splits)

lemma traced_run_global: "traced env (\<lambda>c. run_listeners env (listeners c) chunk c)"
  by (rule tracedI) (rule run_listeners_shape)

lemma traced_run_room:
  "traced env (\<lambda>c. run_listeners env (room_listeners (heap c ! b)) chunk c)"
  by (rule tracedI) (rule run_listeners_shape)

lemma traced_append_event:
  "traced env (\<lambda>c. (Return (),
     log_action (Appended rid chunk)
       (update_room a (\<lambda>r. r\<lparr>events := events r @ [chunk]\<rparr>) c)))"
  by (rule traced_log) (simp_all add: update_room_def)

lemma traced_dispatch_chunk: "traced env (dispatch_chunk env chunk)"
  unfolding dispatch_chunk_def ensure_room_def append_event_def room_fan_out_def
  by (intro traced_bind traced_if traced_run_global traced_run_room traced_append_event
      traced_keeps [OF keeps_lift] traced_keeps [OF keeps_rooms_getitem]
      traced_keeps [OF keeps_rooms_contains] traced_keeps [OF keeps_trace_mkroom]
      traced_keeps [OF keeps_skip])

lemma dispatch_chunks_Cons:
  "dispatch_chunks env (chunk # rest) =
     bind (dispatch_chunk env chunk) (\<lambda>u. dispatch_chunks env rest)"
  by (rule ext) (simp add: bind_def split: prod.splits result.splits)

lemma traced_dispatch_chunks: "traced env (dispatch_chunks env chunks)"
proof (induction chunks)
  case Nil
  have "dispatch_chunks env [] = (\<lambda>c. (Return (), c))" by (rule ext) simp
  then show ?case by (simp add: traced_keeps [OF keeps_skip])
next
  case (Cons chunk rest)
  show ?case
    unfolding dispatch_chunks_Cons
    by (intro traced_bind traced_dispatch_chunk Cons.IH)
qed

lemma keeps_trace_get_end: "keeps trace get_end"
  by (simp add: keeps_def get_end_def split: option.splits)

lemma keeps_trace_set_end: "keeps trace (\<lambda>c. (Return (), c\<lparr>end_token := v\<rparr>))"
  by (simp add: keeps_def)

lemma traced_listen_for_events: "traced env (listen_for_events env timeout)"
  unfolding listen_for_events_def
  by (intro traced_bind traced_api traced_dispatch_chunks traced_keeps [OF keeps_lift]
      traced_keeps [OF keeps_trace_get_end] traced_keeps [OF keeps_trace_set_end])

lemma raising_invocation_is_last:
  assumes s: "run_shape env t out (t @ before @ Invoked l chunk # after)"
    and cb: "callback env (t @ before) l chunk = Some e"
  shows "after = [] \<and> out = Some e"
proof -
  let ?app = "before @ Invoked l chunk # after"
  from s obtain app where "t @ ?app = t @ app"
    and d: "quiet env t app \<or>
         (\<exists>app' l' chunk' e'. app = app' @ [Invoked l' chunk'] \<and> quiet env t app' \<and>
            callback env (t @ app') l' chunk' = Some e' \<and> out = Some e')"
    unfolding run_shape_def by blast
  then have app: "app = ?app" by simp
  have nq: "\<not> quiet env t (before @ Invoked l chunk # more)" for more
    using cb by (simp add: quiet_append)
  from d show ?thesis
  proof
    assume "quiet env t app"
    with app nq show ?thesis by simp
  next
    assume "\<exists>app' l' chunk' e'. app = app' @ [Invoked l' chunk'] \<and> quiet env t app' \<and>
            callback env (t @ app') l' chunk' = Some e' \<and> out = Some e'"
    then obtain app' l' chunk' e' where a: "app = app' @ [Invoked l' chunk']"
      and q: "quiet env t app'" and cb': "callback env (t @ app') l' chunk' = Some e'"
      and o: "out = Some e'"
      by blast
    show ?thesis
    proof (cases after rule: rev_cases)
      case Nil
      with a app have "app' = before" "l' = l" "chunk' = chunk" by simp_all
      with cb cb' o Nil show ?thesis by simp
    next
      case (snoc more x)
      with a app have "app' = before @ Invoked l chunk # more" by simp
      with q nq show ?thesis by simp
    qed
  qed
qed

text \<open>
  C4, as amended. \<^verbatim>\<open>listen_for_events\<close> does not catch what a callback raises: when the
  run invokes a callback that raises \<open>e\<close>, that invocation is the last action of the run
  (no callback registered after it is invoked, no chunk appended, no later chunk
  processed), and the call raises \<open>e\<close> to its caller.
\<close>

theorem listener_exception_propagates:
  assumes "trace (snd (listen_for_events env timeout c)) =
             trace c @ before @ Invoked l chunk # after"
    and "callback env (trace c @ before) l chunk = Some e"
  shows "after = [] \<and> fst (listen_for_events env timeout c) = Raise e"
proof -
  from tracedD [OF traced_listen_for_events [of env timeout], of c] assms(1)
  have "run_shape env (trace c) (raised (fst (listen_for_events env timeout c)))
          (trace c @ before @ Invoked l chunk # after)"
    by simp
  from raising_invocation_is_last [OF this assms(2)]
  show ?thesis by (cases "fst (listen_for_events env timeout c)") simp_all
qed

theorem listener_exception_propagates_witness:
  "trace (snd (listen_for_events raising_env 30000 example_client)) =
     trace example_client @ [ApiCall (EventStream (JStr ''tok1'') 30000)] @
       Invoked 1 message_chunk # []
   \<and> callback raising_env (trace example_client @ [ApiCall (EventStream (JStr ''tok1'') 30000)])
       1 message_chunk = Some (OtherError ''boom'')
   \<and> fst (listen_for_events raising_env 30000 example_client) = Raise (OtherError ''boom'')"
proof -
  have t: "trace (snd (listen_for_events raising_env 30000 example_client)) =
     trace example_client @ [ApiCall (EventStream (JStr ''tok1'') 30000)] @
       Invoked 1 message_chunk # []"
    by (simp add: listen_for_events_def dispatch_chunk_def ensure_room_def append_event_def
        room_fan_out_def bind_def get_end_def api_def lift_def
        raising_env_def example_client_def poll_response_def log_action_def)
  have c: "callback raising_env
      (trace example_client @ [ApiCall (EventStream (JStr ''tok1'') 30000)]) 1 message_chunk =
      Some (OtherError ''boom'')"
    by (simp add: raising_env_def)
  from listener_exception_propagates [OF t c] t c show ?thesis by simp
qed

text \<open>
  C4 as stated fails: on the example client, with the global callbacks 1 and 2 and the
  callback 7 on the room of the chunk, callback 1 raises on the chunk, and neither
  callback 2 nor callback 7 is invoked.
\<close>

theorem later_listeners_not_invoked:
  "callback raising_env [ApiCall (EventStream (JStr ''tok1'') 30000)] 1 message_chunk =
     Some (OtherError ''boom'')
   \<and> listeners example_client = [1, 2]
   \<and> room_listeners (heap example_client ! 0) = [7]
   \<and> py_getitem message_chunk ''room_id'' = Inr (JStr ''!a:x'')
   \<and> Invoked 1 message_chunk \<in>
       set (trace (snd (listen_for_events raising_env 30000 example_client)))
   \<and> Invoked 2 message_chunk \<notin>
       set (trace (snd (listen_for_events raising_env 30000 example_client)))
   \<and> Invoked 7 message_chunk \<notin>
       set (trace (snd (listen_for_events raising_env 30000 example_client)))"
  by (simp add: listen_for_events_def dispatch_chunk_def ensure_room_def append_event_def
        room_fan_out_def bind_def get_end_def api_def lift_def
      raising_env_def example_client_def example_room_def poll_response_def message_chunk_def
      log_action_def Room_init_def)

end
